theory Spec2Isabelle
  imports Complex_Main "HOL-Library.Multiset" "HOL-Library.List_Lexorder"
begin

section \<open>JavaScript values\<close>

text \<open>
  The values the hook handles are what JSON carries (rows of a table, the body of an HTTP
  response) plus \<open>undefined\<close>, which a missing property reads as and which an object
  literal can store. An object is the list of its own properties in enumeration order.
\<close>

datatype jsval =
    JUndefined
  | JNull
  | JBool bool
  | JNum real
  | JStr string
  | JArr "jsval list"
  | JObj "(string \<times> jsval) list"

type_synonym row = "(string \<times> jsval) list"

text \<open>The result of \<open>ToNumber\<close>: a finite number, an infinity or \<open>NaN\<close>.\<close>

datatype jsnum = NaN | NegInf | Fin real | PosInf

text \<open>
  Three conversions belong to the JavaScript engine and not to this program: reading a
  string as a number, printing a number, and printing an array or an object. Every
  function that needs one takes them as a parameter.
\<close>

record host =
  str_to_num :: "string \<Rightarrow> jsnum"
  num_to_str :: "real \<Rightarrow> string"
  obj_to_str :: "jsval \<Rightarrow> string"

text \<open>\<open>!v\<close> is \<open>\<not> truthy v\<close>.\<close>

fun truthy :: "jsval \<Rightarrow> bool" where
  "truthy JUndefined = False"
| "truthy JNull = False"
| "truthy (JBool b) = b"
| "truthy (JNum r) = (r \<noteq> 0)"
| "truthy (JStr s) = (s \<noteq> [])"
| "truthy (JArr xs) = True"
| "truthy (JObj ps) = True"

text \<open>\<open>a || b\<close>\<close>

definition js_or :: "jsval \<Rightarrow> jsval \<Rightarrow> jsval" where
  "js_or a b = (if truthy a then a else b)"

text \<open>\<open>r[k]\<close> on an object: the own property, \<open>undefined\<close> when there is none.\<close>

definition get_prop :: "row \<Rightarrow> string \<Rightarrow> jsval" where
  "get_prop r k = (case map_of r k of None \<Rightarrow> JUndefined | Some v \<Rightarrow> v)"

text \<open>
  Writing property \<open>k\<close> in an object literal after a spread: an existing key keeps its
  place and takes the new value, a new key goes to the end.
\<close>

fun set_prop :: "string \<Rightarrow> jsval \<Rightarrow> row \<Rightarrow> row" where
  "set_prop k v [] = [(k, v)]"
| "set_prop k v (p # ps) = (if fst p = k then (k, v) # ps else p # set_prop k v ps)"

text \<open>
  \<open>a === b\<close>. Arrays and objects are equal only to themselves; the values compared here
  come from separately parsed messages, so two of them are never the same object.
\<close>

fun strict_eq :: "jsval \<Rightarrow> jsval \<Rightarrow> bool" where
  "strict_eq JUndefined JUndefined = True"
| "strict_eq JNull JNull = True"
| "strict_eq (JBool a) (JBool b) = (a = b)"
| "strict_eq (JNum a) (JNum b) = (a = b)"
| "strict_eq (JStr a) (JStr b) = (a = b)"
| "strict_eq _ _ = False"

subsection \<open>The relational operators\<close>

text \<open>Strings compare by code unit, the shorter of two that agree first.\<close>

fun str_less :: "string \<Rightarrow> string \<Rightarrow> bool" where
  "str_less [] [] = False"
| "str_less [] (y # ys) = True"
| "str_less (x # xs) [] = False"
| "str_less (x # xs) (y # ys) =
     (if (of_char x :: nat) < of_char y then True
      else if (of_char y :: nat) < of_char x then False
      else str_less xs ys)"

fun num_lt :: "jsnum \<Rightarrow> jsnum \<Rightarrow> bool" where
  "num_lt NaN _ = False"
| "num_lt _ NaN = False"
| "num_lt (Fin a) (Fin b) = (a < b)"
| "num_lt NegInf NegInf = False"
| "num_lt NegInf _ = True"
| "num_lt _ NegInf = False"
| "num_lt PosInf _ = False"
| "num_lt _ PosInf = True"

text \<open>\<open>ToPrimitive\<close>: an array or an object becomes the string the engine prints it as.\<close>

fun to_primitive :: "host \<Rightarrow> jsval \<Rightarrow> jsval" where
  "to_primitive h (JArr xs) = JStr (obj_to_str h (JArr xs))"
| "to_primitive h (JObj ps) = JStr (obj_to_str h (JObj ps))"
| "to_primitive h v = v"

fun to_number :: "host \<Rightarrow> jsval \<Rightarrow> jsnum" where
  "to_number h JUndefined = NaN"
| "to_number h JNull = Fin 0"
| "to_number h (JBool b) = Fin (if b then 1 else 0)"
| "to_number h (JNum r) = Fin r"
| "to_number h (JStr s) = str_to_num h s"
| "to_number h (JArr xs) = str_to_num h (obj_to_str h (JArr xs))"
| "to_number h (JObj ps) = str_to_num h (obj_to_str h (JObj ps))"

text \<open>
  \<open>a < b\<close>: two strings compare as strings, anything else as numbers, and a comparison
  with \<open>NaN\<close> is false. \<open>a > b\<close> is \<open>js_lt h b a\<close>.
\<close>

definition js_lt :: "host \<Rightarrow> jsval \<Rightarrow> jsval \<Rightarrow> bool" where
  "js_lt h a b =
     (case (to_primitive h a, to_primitive h b) of
        (JStr s, JStr t) \<Rightarrow> str_less s t
      | (pa, pb) \<Rightarrow> num_lt (to_number h pa) (to_number h pb))"

text \<open>
  An engine whose conversions give nothing, for evaluating the program on inputs where it
  calls none of them.
\<close>

definition quiet_host :: host where
  "quiet_host = \<lparr> str_to_num = (\<lambda>s. NaN), num_to_str = (\<lambda>r. []), obj_to_str = (\<lambda>v. []) \<rparr>"

text \<open>The string a template literal puts for \<open>${v}\<close>.\<close>

fun to_string :: "host \<Rightarrow> jsval \<Rightarrow> string" where
  "to_string h JUndefined = ''undefined''"
| "to_string h JNull = ''null''"
| "to_string h (JBool b) = (if b then ''true'' else ''false'')"
| "to_string h (JNum r) = num_to_str h r"
| "to_string h (JStr s) = s"
| "to_string h (JArr xs) = obj_to_str h (JArr xs)"
| "to_string h (JObj ps) = obj_to_str h (JObj ps)"

text \<open>
  \<open>Array.prototype.sort\<close> with a comparator is the engine's. For a consistent comparator
  ECMAScript fixes its result, the stable sorted arrangement, which insertion computes;
  for an inconsistent one the order is left to the engine, and this is one such order.
  \<open>x\<close> goes after \<open>y\<close> exactly when the comparator is positive.
\<close>

fun insert_by :: "('a \<Rightarrow> 'a \<Rightarrow> int) \<Rightarrow> 'a \<Rightarrow> 'a list \<Rightarrow> 'a list" where
  "insert_by cmp x [] = [x]"
| "insert_by cmp x (y # ys) = (if 0 < cmp x y then y # insert_by cmp x ys else x # y # ys)"

fun array_sort :: "('a \<Rightarrow> 'a \<Rightarrow> int) \<Rightarrow> 'a list \<Rightarrow> 'a list" where
  "array_sort cmp [] = []"
| "array_sort cmp (x # xs) = insert_by cmp x (array_sort cmp xs)"

text \<open>
  \<open>xs.slice(0, n)\<close> for an integer \<open>n\<close>: the first \<open>n\<close> elements, and for a negative
  \<open>n\<close> all but the last \<open>-n\<close>.
\<close>

definition slice0 :: "int \<Rightarrow> 'a list \<Rightarrow> 'a list" where
  "slice0 n xs = (if n < 0 then take (nat (int (length xs) + n)) xs else take (nat n) xs)"

section \<open>The hook \<open>useSupabaseRealtime\<close>\<close>

subsection \<open>View names and the transform\<close>

definition TABLE_MAPPING :: "string \<Rightarrow> string option" where
  "TABLE_MAPPING =
     [''health'' \<mapsto> ''land_health'',
      ''risk'' \<mapsto> ''degradation_risk'',
      ''climate_forecast'' \<mapsto> ''climate_data'',
      ''weather_realtime'' \<mapsto> ''climate_data'',
      ''alerts'' \<mapsto> ''alerts'',
      ''recommendations'' \<mapsto> ''recommendations'']"

text \<open>
  \<open>TABLE_MAPPING[viewName] || viewName\<close>, for a view name that is not the name of a member
  of \<open>Object.prototype\<close> (for \<open>constructor\<close> and the like the lookup gives that member,
  which is no table name).
\<close>

definition actualTable :: "string \<Rightarrow> string" where
  "actualTable v = (case TABLE_MAPPING v of Some t \<Rightarrow> t | None \<Rightarrow> v)"

text \<open>
  \<open>transformData\<close>. Its argument is a row or \<open>null\<close> (\<open>None\<close>), the only falsy value a
  payload carries in that place. The object literal copies the row, then writes each
  listed property in turn, every value read from the row as it came in.
\<close>

definition transformData :: "string \<Rightarrow> row option \<Rightarrow> row option" where
  "transformData tableName data =
     (case data of
        None \<Rightarrow> None
      | Some d \<Rightarrow>
          if tableName = ''land_health'' then
            Some (set_prop ''updated_at''
                    (js_or (get_prop d ''observation_date'') (get_prop d ''updated_at''))
                 (set_prop ''created_at''
                    (js_or (get_prop d ''observation_date'') (get_prop d ''created_at''))
                  d))
          else if tableName = ''degradation_risk'' then
            Some (set_prop ''updated_at''
                    (js_or (get_prop d ''assessment_date'') (get_prop d ''updated_at''))
                 (set_prop ''created_at''
                    (js_or (get_prop d ''assessment_date'') (get_prop d ''created_at''))
                 (set_prop ''factors'' (get_prop d ''risk_factors'')
                 (set_prop ''risk_score'' (get_prop d ''total_risk_score'')
                  d))))
          else if tableName = ''climate_data'' then
            Some (set_prop ''temperature''
                    (js_or (get_prop d ''temperature'') (get_prop d ''temp_avg''))
                 (set_prop ''timestamp'' (get_prop d ''date'')
                  d))
          else Some d)"

text \<open>The names each of the three object literals writes, in the order it writes them.\<close>

definition alias_names :: "string \<Rightarrow> string list" where
  "alias_names tableName =
     (if tableName = ''land_health'' then [''created_at'', ''updated_at'']
      else if tableName = ''degradation_risk''
        then [''risk_score'', ''factors'', ''created_at'', ''updated_at'']
      else if tableName = ''climate_data'' then [''timestamp'', ''temperature'']
      else [])"

subsection \<open>The subscription's options\<close>

text \<open>
  The options as the effect sees them, after \<open>JSON.parse(JSON.stringify(...))\<close>:
  \<open>parsedFilter\<close> is an object (empty when no filter was given), \<open>parsedOrderBy\<close> is
  \<open>None\<close> for the empty object, and \<open>stableLimit\<close> is \<open>None\<close> when no limit was given.
\<close>

record order_by =
  column :: string
  ascending :: "bool option"

record config =
  viewName :: string
  parsedFilter :: row
  parsedOrderBy :: "order_by option"
  stableLimit :: "int option"

text \<open>\<open>parsedOrderBy && parsedOrderBy.column\<close>: the empty string is falsy.\<close>

definition order_column :: "config \<Rightarrow> order_by option" where
  "order_column cfg =
     (case parsedOrderBy cfg of
        None \<Rightarrow> None
      | Some ob \<Rightarrow> if column ob \<noteq> [] then Some ob else None)"

text \<open>\<open>if (stableLimit)\<close>: a limit of \<open>0\<close> is falsy.\<close>

definition limit_set :: "config \<Rightarrow> bool" where
  "limit_set cfg = (case stableLimit cfg of None \<Rightarrow> False | Some l \<Rightarrow> l \<noteq> 0)"

subsection \<open>The snapshot query and the channel's filter\<close>

record query =
  q_from :: string
  q_eq :: "(string \<times> jsval) list"
  q_order :: "(string \<times> bool) option"
  q_limit :: "int option"

text \<open>
  The query \<open>setup\<close> builds: one \<open>.eq(key, value)\<close> for each entry of the filter, the
  order with \<open>ascending ?? false\<close>, and the limit when it is truthy.
\<close>

definition snapshot_query :: "config \<Rightarrow> query" where
  "snapshot_query cfg =
     \<lparr> q_from = viewName cfg,
       q_eq = parsedFilter cfg,
       q_order = (case order_column cfg of
                    None \<Rightarrow> None
                  | Some ob \<Rightarrow> Some (column ob,
                                     (case ascending ob of None \<Rightarrow> False | Some b \<Rightarrow> b))),
       q_limit = (if limit_set cfg then stableLimit cfg else None) \<rparr>"

text \<open>
  \<open>filterString\<close>: \<open>undefined\<close> (\<open>None\<close>) for an empty filter, else
  \<open>`${firstKey}=eq.${firstValue}`\<close> with \<open>firstKey = Object.keys(parsedFilter)[0]\<close>.
\<close>

definition filterString :: "host \<Rightarrow> config \<Rightarrow> string option" where
  "filterString h cfg =
     (if parsedFilter cfg = [] then None
      else let firstKey = fst (hd (parsedFilter cfg));
               firstValue = get_prop (parsedFilter cfg) firstKey
           in Some (firstKey @ ''=eq.'' @ to_string h firstValue))"

record channel =
  ch_id :: nat
  ch_event :: string
  ch_schema :: string
  ch_table :: string
  ch_filter :: "string option"

subsection \<open>Merging a change into the rows\<close>

record payload =
  eventType :: string
  new :: "row option"
  old :: "row option"

text \<open>
  The comparator of the re-sort. \<open>compare\<close> comes from \<open>aVal > bVal\<close> and
  \<open>aVal < bVal\<close>; the comparator returns it, negated unless \<open>ascending\<close> is truthy.
\<close>

definition compare_values :: "host \<Rightarrow> jsval \<Rightarrow> jsval \<Rightarrow> int" where
  "compare_values h aVal bVal =
     (if js_lt h bVal aVal then 1 else if js_lt h aVal bVal then - 1 else 0)"

definition compare_rows :: "host \<Rightarrow> order_by \<Rightarrow> row \<Rightarrow> row \<Rightarrow> int" where
  "compare_rows h ob a b =
     (let aVal = get_prop a (column ob);
          bVal = get_prop b (column ob);
          compare = compare_values h aVal bVal
      in if ascending ob = Some True then compare else - compare)"

text \<open>
  \<open>payload.new ? transformData(actualTable, payload.new) : null\<close>, and the same for
  \<open>payload.old\<close>.
\<close>

definition transformedNew :: "config \<Rightarrow> payload \<Rightarrow> row option" where
  "transformedNew cfg p =
     (case new p of
        None \<Rightarrow> None
      | Some r \<Rightarrow> transformData (actualTable (viewName cfg)) (Some r))"

definition transformedOld :: "config \<Rightarrow> payload \<Rightarrow> row option" where
  "transformedOld cfg p =
     (case old p of
        None \<Rightarrow> None
      | Some r \<Rightarrow> transformData (actualTable (viewName cfg)) (Some r))"

text \<open>The three branches on \<open>payload.eventType\<close>, on the transformed rows.\<close>

definition merge_event :: "config \<Rightarrow> payload \<Rightarrow> row list \<Rightarrow> row list" where
  "merge_event cfg p prev =
     (let updated = prev
      in if eventType p = ''INSERT'' \<and> transformedNew cfg p \<noteq> None then
           (let updated = the (transformedNew cfg p) # updated
            in if limit_set cfg then slice0 (the (stableLimit cfg)) updated else updated)
         else if eventType p = ''UPDATE'' \<and> transformedNew cfg p \<noteq> None then
           map (\<lambda>record.
                  if strict_eq (get_prop record ''id'')
                       (get_prop (the (transformedNew cfg p)) ''id'')
                  then the (transformedNew cfg p) else record) updated
         else if eventType p = ''DELETE'' \<and> transformedOld cfg p \<noteq> None then
           filter (\<lambda>record.
                  \<not> strict_eq (get_prop record ''id'')
                       (get_prop (the (transformedOld cfg p)) ''id''))
             updated
         else updated)"

text \<open>The re-sort that follows, whatever the event was.\<close>

definition resort :: "host \<Rightarrow> config \<Rightarrow> row list \<Rightarrow> row list" where
  "resort h cfg updated =
     (case order_column cfg of
        None \<Rightarrow> updated
      | Some ob \<Rightarrow> array_sort (compare_rows h ob) updated)"

text \<open>The function the change callback hands to \<open>setData\<close>.\<close>

definition apply_change :: "host \<Rightarrow> config \<Rightarrow> payload \<Rightarrow> row list \<Rightarrow> row list" where
  "apply_change h cfg p prev = resort h cfg (merge_event cfg p prev)"

text \<open>Changes are applied one at a time, in the order they arrive.\<close>

definition apply_changes :: "host \<Rightarrow> config \<Rightarrow> payload list \<Rightarrow> row list \<Rightarrow> row list" where
  "apply_changes h cfg ps prev = foldl (\<lambda>rows p. apply_change h cfg p rows) prev ps"

text \<open>
  Rows are in the comparator's order when no row is placed before a neighbour it should
  follow.
\<close>

fun in_order :: "('a \<Rightarrow> 'a \<Rightarrow> int) \<Rightarrow> 'a list \<Rightarrow> bool" where
  "in_order cmp [] = True"
| "in_order cmp [x] = True"
| "in_order cmp (x # y # ys) = (cmp x y \<le> 0 \<and> in_order cmp (y # ys))"

subsection \<open>The hook's state and the events that reach it\<close>

text \<open>
  The hook with its state, its two refs, and what it has outstanding in the outside
  world: the channels it has opened and not removed, the timers it has
  set and that have neither fired nor been cleared, and the calls of \<open>setup\<close> suspended at
  \<open>await query\<close> and at \<open>await supabase.removeChannel(...)\<close>. Channels and timers are
  numbered from \<open>1\<close>, so an id is truthy.
\<close>

record hook =
  data :: "row list"
  loading :: bool
  connected :: bool
  channelRef :: "nat option"
  retryTimeout :: "nat option"
  channels :: "channel list"
  timers :: "nat list"
  awaiting_snapshot :: nat
  awaiting_removal :: nat
  next_id :: nat

datatype status = SUBSCRIBED | CLOSED | CHANNEL_ERROR | TIMED_OUT

datatype fetch_result = FetchError | FetchData "row list option"

datatype event =
    Activate
  | SnapshotResolved fetch_result
  | RemoveChannelResolved bool
  | Status status
  | TimerFired nat
  | Change payload
  | Cleanup

definition fresh_hook :: hook where
  "fresh_hook = \<lparr> data = [], loading = True, connected = False, channelRef = None,
                  retryTimeout = None, channels = [], timers = [],
                  awaiting_snapshot = 0, awaiting_removal = 0, next_id = 1 \<rparr>"

text \<open>\<open>setup()\<close> up to its first \<open>await\<close>: the query is sent.\<close>

definition setup_call :: "hook \<Rightarrow> hook" where
  "setup_call s = s\<lparr> awaiting_snapshot := awaiting_snapshot s + 1 \<rparr>"

text \<open>The effect runs for the first time: \<open>setup()\<close> is called.\<close>

definition activate :: hook where
  "activate = setup_call fresh_hook"

definition removeChannel :: "nat \<Rightarrow> hook \<Rightarrow> hook" where
  "removeChannel c s = s\<lparr> channels := filter (\<lambda>ch. ch_id ch \<noteq> c) (channels s) \<rparr>"

definition clearTimeout :: "nat \<Rightarrow> hook \<Rightarrow> hook" where
  "clearTimeout t s = s\<lparr> timers := removeAll t (timers s) \<rparr>"

text \<open>The \<open>catch\<close> block of \<open>setup\<close>.\<close>

definition setup_failed :: "hook \<Rightarrow> hook" where
  "setup_failed s = s\<lparr> loading := False, connected := False \<rparr>"

text \<open>The rest of \<open>setup\<close>: the channel is created, subscribed and stored in the ref.\<close>

definition open_channel :: "host \<Rightarrow> config \<Rightarrow> hook \<Rightarrow> hook" where
  "open_channel h cfg s =
     s\<lparr> channels := channels s @
            [\<lparr> ch_id = next_id s, ch_event = ''*'', ch_schema = ''public'',
               ch_table = actualTable (viewName cfg), ch_filter = filterString h cfg \<rparr>],
        channelRef := Some (next_id s),
        next_id := next_id s + 1 \<rparr>"

text \<open>\<open>setup\<close> from the answer of the query to its next \<open>await\<close>, or to its end.\<close>

definition snapshot_resolved :: "host \<Rightarrow> config \<Rightarrow> fetch_result \<Rightarrow> hook \<Rightarrow> hook" where
  "snapshot_resolved h cfg res s =
     (case res of
        FetchError \<Rightarrow> setup_failed s
      | FetchData initial \<Rightarrow>
          (let s1 = s\<lparr> data := (case initial of None \<Rightarrow> [] | Some rows \<Rightarrow> rows),
                        loading := False \<rparr>
           in case channelRef s1 of
                Some c \<Rightarrow> (removeChannel c s1)\<lparr> awaiting_removal := awaiting_removal s1 + 1 \<rparr>
              | None \<Rightarrow> open_channel h cfg s1))"

text \<open>
  The branch of the subscribe callback for a closed channel: a timer is set only when the
  ref holds none.
\<close>

definition schedule_retry :: "hook \<Rightarrow> hook" where
  "schedule_retry s =
     (case retryTimeout s of
        None \<Rightarrow> s\<lparr> timers := timers s @ [next_id s],
                    retryTimeout := Some (next_id s),
                    next_id := next_id s + 1 \<rparr>
      | Some t \<Rightarrow> s)"

text \<open>The subscribe callback.\<close>

definition on_status :: "status \<Rightarrow> hook \<Rightarrow> hook" where
  "on_status st s =
     (case st of
        SUBSCRIBED \<Rightarrow>
          (let s1 = s\<lparr> connected := True \<rparr>
           in case retryTimeout s1 of
                Some t \<Rightarrow> (clearTimeout t s1)\<lparr> retryTimeout := None \<rparr>
              | None \<Rightarrow> s1)
      | CLOSED \<Rightarrow> schedule_retry (s\<lparr> connected := False \<rparr>)
      | CHANNEL_ERROR \<Rightarrow> schedule_retry (s\<lparr> connected := False \<rparr>)
      | TIMED_OUT \<Rightarrow> s\<lparr> connected := False \<rparr>)"

text \<open>The function the effect returns.\<close>

definition cleanup :: "hook \<Rightarrow> hook" where
  "cleanup s =
     (let s1 = (case channelRef s of
                  Some c \<Rightarrow> (removeChannel c s)\<lparr> channelRef := None \<rparr>
                | None \<Rightarrow> s)
      in case retryTimeout s1 of
           Some t \<Rightarrow> (clearTimeout t s1)\<lparr> retryTimeout := None \<rparr>
         | None \<Rightarrow> s1)"

text \<open>
  One event: the effect runs again, an answer arrives, the channel reports a status, a
  timer fires (its callback empties the ref and calls \<open>setup()\<close>), a change arrives, or the
  cleanup runs. An answer arrives only for a call that is waiting for it and a timer
  fires only while it is pending; such an event leaves the state as it is otherwise.
\<close>

definition step :: "host \<Rightarrow> config \<Rightarrow> hook \<Rightarrow> event \<Rightarrow> hook" where
  "step h cfg s e =
     (case e of
        Activate \<Rightarrow> setup_call s
      | SnapshotResolved res \<Rightarrow>
          if awaiting_snapshot s = 0 then s
          else snapshot_resolved h cfg res (s\<lparr> awaiting_snapshot := awaiting_snapshot s - 1 \<rparr>)
      | RemoveChannelResolved ok \<Rightarrow>
          if awaiting_removal s = 0 then s
          else (let s1 = s\<lparr> awaiting_removal := awaiting_removal s - 1 \<rparr>
                in if ok then open_channel h cfg (s1\<lparr> channelRef := None \<rparr>)
                   else setup_failed s1)
      | Status st \<Rightarrow> on_status st s
      | TimerFired t \<Rightarrow>
          if t \<in> set (timers s)
          then setup_call ((clearTimeout t s)\<lparr> retryTimeout := None \<rparr>)
          else s
      | Change p \<Rightarrow> s\<lparr> data := apply_change h cfg p (data s) \<rparr>
      | Cleanup \<Rightarrow> cleanup s)"

definition run :: "host \<Rightarrow> config \<Rightarrow> event list \<Rightarrow> hook" where
  "run h cfg evs = foldl (step h cfg) activate evs"

text \<open>
  The timers outstanding are exactly the one the ref holds, if it holds one.
\<close>

definition timer_guard :: "hook \<Rightarrow> bool" where
  "timer_guard s = (timers s = (case retryTimeout s of None \<Rightarrow> [] | Some t \<Rightarrow> [t]))"

section \<open>The recommendation service's response\<close>

text \<open>
  \<open>v?.k\<close> for the two property names the decoding reads, \<open>data\<close> and \<open>recommendations\<close>:
  an object gives its own property, everything else has none.
\<close>

fun opt_get :: "jsval \<Rightarrow> string \<Rightarrow> jsval" where
  "opt_get (JObj ps) k = get_prop ps k"
| "opt_get _ k = JUndefined"

text \<open>The four places the decoding looks at, in the order of the \<open>||\<close> chain.\<close>

definition candidates :: "jsval \<Rightarrow> jsval list" where
  "candidates response =
     [opt_get (opt_get (opt_get response ''data'') ''data'') ''data'',
      opt_get (opt_get response ''data'') ''data'',
      opt_get (opt_get response ''data'') ''recommendations'',
      opt_get response ''data'']"

text \<open>
  The fallback of \<open>getRecommendations\<close>, from the \<open>response\<close> of \<open>api.get\<close> (an object with
  the body under \<open>data\<close>) to the value returned under \<open>data\<close>.
\<close>

definition pick_recommendations :: "jsval \<Rightarrow> jsval" where
  "pick_recommendations response =
     js_or (opt_get (opt_get (opt_get response ''data'') ''data'') ''data'')
    (js_or (opt_get (opt_get response ''data'') ''data'')
    (js_or (opt_get (opt_get response ''data'') ''recommendations'')
    (js_or (opt_get response ''data'')
           (JArr []))))"

fun ensure_array :: "jsval \<Rightarrow> jsval" where
  "ensure_array (JArr xs) = JArr xs"
| "ensure_array (JObj ps) = JArr [JObj ps]"
| "ensure_array _ = JArr []"

definition fastapi_recommendations :: "jsval \<Rightarrow> jsval" where
  "fastapi_recommendations response = ensure_array (pick_recommendations response)"

fun is_array :: "jsval \<Rightarrow> bool" where
  "is_array (JArr xs) = True"
| "is_array _ = False"

fun is_string :: "jsval \<Rightarrow> bool" where
  "is_string (JStr s) = True"
| "is_string _ = False"

section \<open>Example subscriptions\<close>

text \<open>
  The subscription of the specification's scenario: a filter on \<open>location_id\<close>, newest
  first by \<open>created_at\<close>, at most one row.
\<close>

definition scenario_cfg :: config where
  "scenario_cfg = \<lparr> viewName = ''alerts'',
       parsedFilter = [(''location_id'', JStr ''L1'')],
       parsedOrderBy = Some \<lparr> column = ''created_at'', ascending = Some False \<rparr>,
       stableLimit = Some 1 \<rparr>"

text \<open>The same view with no filter and no limit.\<close>

definition history_cfg :: config where
  "history_cfg = \<lparr> viewName = ''alerts'', parsedFilter = [],
       parsedOrderBy = Some \<lparr> column = ''created_at'', ascending = Some False \<rparr>,
       stableLimit = None \<rparr>"

section \<open>The transform\<close>

lemma set_prop_keys: "set (map fst (set_prop k v r)) = insert k (set (map fst r))"
  by (induction r) auto

lemma get_set_prop: "get_prop (set_prop k v r) k' = (if k' = k then v else get_prop r k')"
  by (induction r) (auto simp: get_prop_def)

lemma transformData_total:
  "\<exists>d'. transformData t (Some d) = Some d'"
  by (simp add: transformData_def)

lemma transformData_unmapped:
  "t \<noteq> ''land_health'' \<Longrightarrow> t \<noteq> ''degradation_risk'' \<Longrightarrow> t \<noteq> ''climate_data''
   \<Longrightarrow> transformData t x = x"
  by (cases x) (simp_all add: transformData_def)

lemma transformData_risk_example:
  "transformData ''degradation_risk''
        (Some [(''total_risk_score'', JNum 61.2), (''risk_factors'', JStr ''drought'')])
      = Some [(''total_risk_score'', JNum 61.2), (''risk_factors'', JStr ''drought''),
              (''risk_score'', JNum 61.2), (''factors'', JStr ''drought''),
              (''created_at'', JUndefined), (''updated_at'', JUndefined)]"
  by (simp add: transformData_def get_prop_def js_or_def)

lemma set_prop_key_image: "fst ` set (set_prop k v r) = insert k (fst ` set r)"
  using set_prop_keys [of k v r] by simp

lemma transformData_key_set:
  assumes "transformData t (Some d) = Some d'"
  shows "set (map fst d') = set (map fst d) \<union> set (alias_names t)"
proof -
  consider "t = ''land_health''" | "t \<noteq> ''land_health''" "t = ''degradation_risk''"
    | "t \<noteq> ''land_health''" "t \<noteq> ''degradation_risk''" "t = ''climate_data''"
    | "t \<noteq> ''land_health''" "t \<noteq> ''degradation_risk''" "t \<noteq> ''climate_data''"
    by blast
  then show ?thesis
  proof cases
    case 1
    with assms have "d' = set_prop ''updated_at''
        (js_or (get_prop d ''observation_date'') (get_prop d ''updated_at''))
        (set_prop ''created_at''
          (js_or (get_prop d ''observation_date'') (get_prop d ''created_at'')) d)"
      by (simp add: transformData_def)
    then show ?thesis using 1
      by (simp add: alias_names_def set_prop_key_image insert_commute)
  next
    case 2
    with assms have "d' = set_prop ''updated_at''
        (js_or (get_prop d ''assessment_date'') (get_prop d ''updated_at''))
        (set_prop ''created_at''
          (js_or (get_prop d ''assessment_date'') (get_prop d ''created_at''))
        (set_prop ''factors'' (get_prop d ''risk_factors'')
        (set_prop ''risk_score'' (get_prop d ''total_risk_score'') d)))"
      by (simp add: transformData_def)
    then show ?thesis using 2
      by (simp add: alias_names_def set_prop_key_image insert_commute)
  next
    case 3
    with assms have "d' = set_prop ''temperature''
        (js_or (get_prop d ''temperature'') (get_prop d ''temp_avg''))
        (set_prop ''timestamp'' (get_prop d ''date'') d)"
      by (simp add: transformData_def)
    then show ?thesis using 3
      by (simp add: alias_names_def set_prop_key_image insert_commute)
  next
    case 4
    with assms have "d' = d" by (simp add: transformData_def)
    then show ?thesis using 4 by (simp add: alias_names_def)
  qed
qed

lemma transformData_kept:
  assumes "transformData t (Some d) = Some d'" and "k \<notin> set (alias_names t)"
  shows "get_prop d' k = get_prop d k"
proof -
  have d': "Some d' = transformData t (Some d)" using assms(1) by simp
  show ?thesis
    using d' assms(2) unfolding alias_names_def
    by (simp add: transformData_def get_set_prop split: if_splits)
qed

lemma transformData_land_health:
  assumes "transformData ''land_health'' (Some d) = Some d'"
  shows "get_prop d' ''created_at''
           = js_or (get_prop d ''observation_date'') (get_prop d ''created_at'')"
    and "get_prop d' ''updated_at''
           = js_or (get_prop d ''observation_date'') (get_prop d ''updated_at'')"
proof -
  have d': "d' = set_prop ''updated_at''
        (js_or (get_prop d ''observation_date'') (get_prop d ''updated_at''))
        (set_prop ''created_at''
          (js_or (get_prop d ''observation_date'') (get_prop d ''created_at'')) d)"
    using assms by (simp add: transformData_def)
  show "get_prop d' ''created_at''
           = js_or (get_prop d ''observation_date'') (get_prop d ''created_at'')"
    unfolding d' by (simp add: get_set_prop)
  show "get_prop d' ''updated_at''
           = js_or (get_prop d ''observation_date'') (get_prop d ''updated_at'')"
    unfolding d' by (simp add: get_set_prop)
qed

lemma transformData_degradation_risk:
  assumes "transformData ''degradation_risk'' (Some d) = Some d'"
  shows "get_prop d' ''created_at''
           = js_or (get_prop d ''assessment_date'') (get_prop d ''created_at'')"
    and "get_prop d' ''updated_at''
           = js_or (get_prop d ''assessment_date'') (get_prop d ''updated_at'')"
    and "get_prop d' ''risk_score'' = get_prop d ''total_risk_score''"
    and "get_prop d' ''factors'' = get_prop d ''risk_factors''"
proof -
  have d': "d' = set_prop ''updated_at''
        (js_or (get_prop d ''assessment_date'') (get_prop d ''updated_at''))
        (set_prop ''created_at''
          (js_or (get_prop d ''assessment_date'') (get_prop d ''created_at''))
        (set_prop ''factors'' (get_prop d ''risk_factors'')
        (set_prop ''risk_score'' (get_prop d ''total_risk_score'') d)))"
    using assms by (simp add: transformData_def)
  show "get_prop d' ''created_at''
           = js_or (get_prop d ''assessment_date'') (get_prop d ''created_at'')"
    unfolding d' by (simp add: get_set_prop)
  show "get_prop d' ''updated_at''
           = js_or (get_prop d ''assessment_date'') (get_prop d ''updated_at'')"
    unfolding d' by (simp add: get_set_prop)
  show "get_prop d' ''risk_score'' = get_prop d ''total_risk_score''"
    unfolding d' by (simp add: get_set_prop)
  show "get_prop d' ''factors'' = get_prop d ''risk_factors''"
    unfolding d' by (simp add: get_set_prop)
qed

lemma transformData_climate_data:
  assumes "transformData ''climate_data'' (Some d) = Some d'"
  shows "get_prop d' ''temperature''
           = js_or (get_prop d ''temperature'') (get_prop d ''temp_avg'')"
    and "get_prop d' ''timestamp'' = get_prop d ''date''"
proof -
  have d': "d' = set_prop ''temperature''
        (js_or (get_prop d ''temperature'') (get_prop d ''temp_avg''))
        (set_prop ''timestamp'' (get_prop d ''date'') d)"
    using assms by (simp add: transformData_def)
  show "get_prop d' ''temperature''
           = js_or (get_prop d ''temperature'') (get_prop d ''temp_avg'')"
    unfolding d' by (simp add: get_set_prop)
  show "get_prop d' ''timestamp'' = get_prop d ''date''"
    unfolding d' by (simp add: get_set_prop)
qed

text \<open>
  C7, as the code has it. The transform gives \<open>null\<close> for \<open>null\<close> and a row for a row. The
  keys of the output are the keys of the input and the names the table's object literal
  writes, and every field under another name keeps its value. Under the names it
  writes, the input's own value does not always stay: \<open>created_at\<close> and \<open>updated_at\<close> take
  \<open>observation_date\<close> (\<open>land_health\<close>) or \<open>assessment_date\<close> (\<open>degradation_risk\<close>) when that
  is truthy and keep their own value otherwise; \<open>temperature\<close> keeps its own truthy value
  and takes \<open>temp_avg\<close> otherwise; \<open>risk_score\<close>, \<open>factors\<close> and \<open>timestamp\<close> carry
  \<open>total_risk_score\<close>, \<open>risk_factors\<close> and \<open>date\<close> when the row has them. The row
  \<open>{total_risk_score: 61.2, risk_factors: "drought"}\<close> of \<open>degradation_risk\<close> comes out with
  \<open>risk_score: 61.2\<close> and \<open>factors: "drought"\<close> after its two original fields. A table with
  no mapping gives the row back as it is.
\<close>

theorem transformData_writes_aliases:
  "transformData t None = None
   \<and> transformData t (Some d) \<noteq> None
   \<and> (transformData t (Some d) = Some d' \<longrightarrow>
        set (map fst d') = set (map fst d) \<union> set (alias_names t)
        \<and> (k \<notin> set (alias_names t) \<longrightarrow> get_prop d' k = get_prop d k)
        \<and> (t = ''land_health'' \<longrightarrow>
             get_prop d' ''created_at''
               = js_or (get_prop d ''observation_date'') (get_prop d ''created_at'')
             \<and> get_prop d' ''updated_at''
               = js_or (get_prop d ''observation_date'') (get_prop d ''updated_at''))
        \<and> (t = ''degradation_risk'' \<longrightarrow>
             get_prop d' ''created_at''
               = js_or (get_prop d ''assessment_date'') (get_prop d ''created_at'')
             \<and> get_prop d' ''updated_at''
               = js_or (get_prop d ''assessment_date'') (get_prop d ''updated_at'')
             \<and> (get_prop d ''total_risk_score'' \<noteq> JUndefined \<longrightarrow>
                  get_prop d' ''risk_score'' = get_prop d ''total_risk_score'')
             \<and> (get_prop d ''risk_factors'' \<noteq> JUndefined \<longrightarrow>
                  get_prop d' ''factors'' = get_prop d ''risk_factors''))
        \<and> (t = ''climate_data'' \<longrightarrow>
             get_prop d' ''temperature''
               = js_or (get_prop d ''temperature'') (get_prop d ''temp_avg'')
             \<and> (get_prop d ''date'' \<noteq> JUndefined \<longrightarrow>
                  get_prop d' ''timestamp'' = get_prop d ''date'')))
   \<and> transformData ''degradation_risk''
        (Some [(''total_risk_score'', JNum 61.2), (''risk_factors'', JStr ''drought'')])
      = Some [(''total_risk_score'', JNum 61.2), (''risk_factors'', JStr ''drought''),
              (''risk_score'', JNum 61.2), (''factors'', JStr ''drought''),
              (''created_at'', JUndefined), (''updated_at'', JUndefined)]
   \<and> (t \<notin> {''land_health'', ''degradation_risk'', ''climate_data''}
        \<longrightarrow> transformData t (Some d) = Some d)"
proof (intro conjI impI)
  show "transformData t None = None" by (simp add: transformData_def)
  show "transformData t (Some d) \<noteq> None"
    using transformData_total [of t d] by (elim exE) simp
next
  assume e: "transformData t (Some d) = Some d'"
  show "set (map fst d') = set (map fst d) \<union> set (alias_names t)"
    by (rule transformData_key_set [OF e])
next
  assume e: "transformData t (Some d) = Some d'" and k: "k \<notin> set (alias_names t)"
  show "get_prop d' k = get_prop d k" by (rule transformData_kept [OF e k])
next
  assume e: "transformData t (Some d) = Some d'" and t: "t = ''land_health''"
  show "get_prop d' ''created_at''
          = js_or (get_prop d ''observation_date'') (get_prop d ''created_at'')"
    by (rule transformData_land_health(1) [OF e [unfolded t]])
next
  assume e: "transformData t (Some d) = Some d'" and t: "t = ''land_health''"
  show "get_prop d' ''updated_at''
          = js_or (get_prop d ''observation_date'') (get_prop d ''updated_at'')"
    by (rule transformData_land_health(2) [OF e [unfolded t]])
next
  assume e: "transformData t (Some d) = Some d'" and t: "t = ''degradation_risk''"
  show "get_prop d' ''created_at''
          = js_or (get_prop d ''assessment_date'') (get_prop d ''created_at'')"
    by (rule transformData_degradation_risk(1) [OF e [unfolded t]])
next
  assume e: "transformData t (Some d) = Some d'" and t: "t = ''degradation_risk''"
  show "get_prop d' ''updated_at''
          = js_or (get_prop d ''assessment_date'') (get_prop d ''updated_at'')"
    by (rule transformData_degradation_risk(2) [OF e [unfolded t]])
next
  assume e: "transformData t (Some d) = Some d'" and t: "t = ''degradation_risk''"
  show "get_prop d' ''risk_score'' = get_prop d ''total_risk_score''"
    by (rule transformData_degradation_risk(3) [OF e [unfolded t]])
next
  assume e: "transformData t (Some d) = Some d'" and t: "t = ''degradation_risk''"
  show "get_prop d' ''factors'' = get_prop d ''risk_factors''"
    by (rule transformData_degradation_risk(4) [OF e [unfolded t]])
next
  assume e: "transformData t (Some d) = Some d'" and t: "t = ''climate_data''"
  show "get_prop d' ''temperature''
          = js_or (get_prop d ''temperature'') (get_prop d ''temp_avg'')"
    by (rule transformData_climate_data(1) [OF e [unfolded t]])
next
  assume e: "transformData t (Some d) = Some d'" and t: "t = ''climate_data''"
  show "get_prop d' ''timestamp'' = get_prop d ''date''"
    by (rule transformData_climate_data(2) [OF e [unfolded t]])
next
  show "transformData ''degradation_risk''
        (Some [(''total_risk_score'', JNum 61.2), (''risk_factors'', JStr ''drought'')])
      = Some [(''total_risk_score'', JNum 61.2), (''risk_factors'', JStr ''drought''),
              (''risk_score'', JNum 61.2), (''factors'', JStr ''drought''),
              (''created_at'', JUndefined), (''updated_at'', JUndefined)]"
    by (rule transformData_risk_example)
next
  assume "t \<notin> {''land_health'', ''degradation_risk'', ''climate_data''}"
  then show "transformData t (Some d) = Some d"
    using transformData_unmapped [of t "Some d"] by simp
qed

theorem transformData_writes_aliases_witness:
  "get_prop [(''total_risk_score'', JNum 61.2), (''risk_factors'', JStr ''drought''),
             (''risk_score'', JNum 61.2), (''factors'', JStr ''drought''),
             (''created_at'', JUndefined), (''updated_at'', JUndefined)] ''factors''
     = get_prop [(''total_risk_score'', JNum 61.2), (''risk_factors'', JStr ''drought'')]
         ''risk_factors''"
proof -
  let ?d = "[(''total_risk_score'', JNum 61.2), (''risk_factors'', JStr ''drought'')]"
  let ?out = "[(''total_risk_score'', JNum 61.2), (''risk_factors'', JStr ''drought''),
               (''risk_score'', JNum 61.2), (''factors'', JStr ''drought''),
               (''created_at'', JUndefined), (''updated_at'', JUndefined)]"
  have e: "transformData ''degradation_risk'' (Some ?d) = Some ?out"
    by (rule transformData_risk_example)
  have src: "get_prop ?d ''risk_factors'' \<noteq> JUndefined" by (simp add: get_prop_def)
  note facts = transformData_writes_aliases
    [of "''degradation_risk''" ?d ?out "''id''",
     THEN conjunct2, THEN conjunct2, THEN conjunct1, THEN mp, OF e]
  note risk = facts [THEN conjunct2, THEN conjunct2, THEN conjunct2, THEN conjunct1,
    THEN mp, OF refl]
  show ?thesis
    by (rule risk [THEN conjunct2, THEN conjunct2, THEN conjunct2, THEN mp, OF src])
qed

text \<open>
  A \<open>land_health\<close> row with both \<open>observation_date\<close> and \<open>created_at\<close> comes out with the
  observation date under \<open>created_at\<close>, and a \<open>degradation_risk\<close> row with \<open>factors\<close> and no
  \<open>risk_factors\<close> comes out with \<open>factors\<close> undefined: in both the input's own value is
  gone.
\<close>

theorem transformData_overwrites_counterexample:
  "transformData ''land_health''
      (Some [(''id'', JNum 7), (''observation_date'', JStr ''2025-03-01''),
             (''created_at'', JStr ''2025-01-01'')])
    = Some [(''id'', JNum 7), (''observation_date'', JStr ''2025-03-01''),
            (''created_at'', JStr ''2025-03-01''), (''updated_at'', JStr ''2025-03-01'')]
   \<and> transformData ''degradation_risk''
      (Some [(''id'', JNum 1), (''factors'', JStr ''drought'')])
    = Some [(''id'', JNum 1), (''factors'', JUndefined), (''risk_score'', JUndefined),
            (''created_at'', JUndefined), (''updated_at'', JUndefined)]"
  by (simp add: transformData_def get_prop_def js_or_def)

section \<open>Merging changes\<close>


lemma length_insert_by: "length (insert_by cmp x xs) = Suc (length xs)"
  by (induction xs) simp_all

lemma length_array_sort: "length (array_sort cmp xs) = length xs"
  by (induction xs) (simp_all add: length_insert_by)

lemma mset_insert_by: "mset (insert_by cmp x xs) = add_mset x (mset xs)"
  by (induction xs) simp_all

lemma mset_array_sort: "mset (array_sort cmp xs) = mset xs"
  by (induction xs) (simp_all add: mset_insert_by)

lemma length_resort: "length (resort h cfg xs) = length xs"
  by (simp add: resort_def length_array_sort split: option.splits)

lemma mset_resort: "mset (resort h cfg xs) = mset xs"
  by (simp add: resort_def mset_array_sort split: option.splits)

lemma array_sort_in_order: "in_order cmp xs \<Longrightarrow> array_sort cmp xs = xs"
  by (induction cmp xs rule: in_order.induct) simp_all

lemma length_slice0: "0 < n \<Longrightarrow> length (slice0 n xs) \<le> nat n"
  by (simp add: slice0_def)

lemma merge_event_update:
  "eventType p = ''UPDATE'' \<Longrightarrow> length (merge_event cfg p prev) = length prev"
  by (simp add: merge_event_def Let_def)

lemma merge_event_delete:
  "eventType p = ''DELETE'' \<Longrightarrow> length (merge_event cfg p prev) \<le> length prev"
  by (simp add: merge_event_def Let_def)

lemma merge_event_not_insert:
  "eventType p \<noteq> ''INSERT'' \<Longrightarrow> length (merge_event cfg p prev) \<le> length prev"
  by (simp add: merge_event_def Let_def)

text \<open>
  C10. An UPDATE leaves the number of rows exactly as it was, a DELETE never raises it,
  and no event other than an INSERT does: only an INSERT can make the rows grow. This
  holds for the whole function handed to \<open>setData\<close>, the re-sort included.
\<close>

theorem update_delete_length:
  "(eventType p = ''UPDATE'' \<longrightarrow> length (apply_change h cfg p prev) = length prev)
   \<and> (eventType p = ''DELETE'' \<longrightarrow> length (apply_change h cfg p prev) \<le> length prev)
   \<and> (eventType p \<noteq> ''INSERT'' \<longrightarrow> length (apply_change h cfg p prev) \<le> length prev)"
  by (simp add: apply_change_def length_resort merge_event_update merge_event_delete
      merge_event_not_insert)

theorem update_delete_length_witness:
  "length (apply_change quiet_host history_cfg
      \<lparr> eventType = ''UPDATE'',
        new = Some [(''id'', JNum 2), (''created_at'', JStr ''2025-01-09'')],
        old = None \<rparr>
      [[(''id'', JNum 2), (''created_at'', JStr ''2025-01-02'')],
       [(''id'', JNum 1), (''created_at'', JStr ''2025-01-01'')]]) = 2
   \<and> length (apply_change quiet_host history_cfg
      \<lparr> eventType = ''DELETE'', new = None,
        old = Some [(''id'', JNum 2)] \<rparr>
      [[(''id'', JNum 2), (''created_at'', JStr ''2025-01-02'')],
       [(''id'', JNum 1), (''created_at'', JStr ''2025-01-01'')]]) \<le> 2"
proof -
  let ?prev = "[[(''id'', JNum 2), (''created_at'', JStr ''2025-01-02'')],
                [(''id'', JNum 1), (''created_at'', JStr ''2025-01-01'')]]"
  let ?u = "\<lparr> eventType = ''UPDATE'',
               new = Some [(''id'', JNum 2), (''created_at'', JStr ''2025-01-09'')],
               old = None \<rparr>"
  let ?d = "\<lparr> eventType = ''DELETE'', new = None, old = Some [(''id'', JNum 2)] \<rparr>"
  have u: "eventType ?u = ''UPDATE''" and d: "eventType ?d = ''DELETE''" by simp_all
  have "length (apply_change quiet_host history_cfg ?u ?prev) = length ?prev"
    by (rule update_delete_length [of ?u quiet_host history_cfg ?prev,
          THEN conjunct1, THEN mp, OF u])
  moreover have "length (apply_change quiet_host history_cfg ?d ?prev) \<le> length ?prev"
    by (rule update_delete_length [of ?d quiet_host history_cfg ?prev,
          THEN conjunct2, THEN conjunct1, THEN mp, OF d])
  ultimately show ?thesis by simp
qed

lemma transformedNew_Some: "new p \<noteq> None \<Longrightarrow> transformedNew cfg p \<noteq> None"
  by (cases "new p") (simp_all add: transformedNew_def transformData_def)

lemma merge_event_insert_limit:
  assumes "stableLimit cfg = Some L" "0 < L" "eventType p = ''INSERT''" "new p \<noteq> None"
  shows "length (merge_event cfg p prev) \<le> nat L"
  using assms transformedNew_Some [OF assms(4), of cfg]
  by (simp add: merge_event_def Let_def limit_set_def length_slice0)

lemma apply_change_insert_limit:
  assumes "stableLimit cfg = Some L" "0 < L" "eventType p = ''INSERT''" "new p \<noteq> None"
  shows "length (apply_change h cfg p prev) \<le> nat L"
  using merge_event_insert_limit [OF assms] by (simp add: apply_change_def length_resort)

lemma apply_changes_snoc:
  "apply_changes h cfg (ps @ [p]) prev = apply_change h cfg p (apply_changes h cfg ps prev)"
  by (simp add: apply_changes_def)

lemma actualTable_alerts: "actualTable ''alerts'' = ''alerts''"
  by (simp add: actualTable_def TABLE_MAPPING_def)

lemma scenario_insert:
  "apply_change h scenario_cfg
      \<lparr> eventType = ''INSERT'',
        new = Some [(''id'', JStr ''b''), (''created_at'', JStr ''2025-01-02'')],
        old = None \<rparr>
      [[(''id'', JStr ''a''), (''created_at'', JStr ''2025-01-01'')]]
   = [[(''id'', JStr ''b''), (''created_at'', JStr ''2025-01-02'')]]"
  by (simp add: apply_change_def merge_event_def resort_def order_column_def limit_set_def
      transformedNew_def transformData_def actualTable_alerts scenario_cfg_def slice0_def)

text \<open>
  C2, as the code has it. With a limit \<open>L\<close> of at least \<open>1\<close>, after every event of a
  sequence of INSERTs (each carrying a new row) at most \<open>L\<close> rows are held, whatever
  was held before: the new row is put first and the rows are cut to the first \<open>L\<close>. In
  the scenario, limit \<open>1\<close> and the snapshot row \<open>a\<close>, an INSERT of \<open>b\<close> leaves exactly \<open>b\<close>.
  A limit of \<open>0\<close> is falsy: \<open>if (stableLimit)\<close> skips the cut, as it skips \<open>.limit\<close> in the
  snapshot query.
\<close>

theorem insert_keeps_limit:
  assumes "stableLimit cfg = Some L" and "0 < L"
    and "list_all (\<lambda>p. eventType p = ''INSERT'' \<and> new p \<noteq> None) ps"
    and "n < length ps"
  shows "length (apply_changes h cfg (take (Suc n) ps) prev) \<le> nat L
       \<and> merge_event cfg (ps ! n) prev = take (nat L) (the (transformedNew cfg (ps ! n)) # prev)
       \<and> apply_change h scenario_cfg
            \<lparr> eventType = ''INSERT'',
              new = Some [(''id'', JStr ''b''), (''created_at'', JStr ''2025-01-02'')],
              old = None \<rparr>
            [[(''id'', JStr ''a''), (''created_at'', JStr ''2025-01-01'')]]
          = [[(''id'', JStr ''b''), (''created_at'', JStr ''2025-01-02'')]]
       \<and> (stableLimit cfg0 = Some 0 \<and> eventType q = ''INSERT'' \<and> transformedNew cfg0 q = Some tn
            \<longrightarrow> merge_event cfg0 q prev = tn # prev)"
proof -
  have p: "eventType (ps ! n) = ''INSERT''" "new (ps ! n) \<noteq> None"
    using assms(3,4) by (simp_all add: list_all_length)
  have "take (Suc n) ps = take n ps @ [ps ! n]"
    using assms(4) by (simp add: take_Suc_conv_app_nth)
  then have len: "length (apply_changes h cfg (take (Suc n) ps) prev) \<le> nat L"
    using apply_change_insert_limit [OF assms(1,2) p]
    by (simp add: apply_changes_snoc)
  have cut: "merge_event cfg (ps ! n) prev
             = take (nat L) (the (transformedNew cfg (ps ! n)) # prev)"
    using assms(1,2) p transformedNew_Some [OF p(2), of cfg]
    by (simp add: merge_event_def limit_set_def slice0_def)
  have zero: "stableLimit cfg0 = Some 0 \<and> eventType q = ''INSERT'' \<and> transformedNew cfg0 q = Some tn
            \<longrightarrow> merge_event cfg0 q prev = tn # prev"
    by (simp add: merge_event_def limit_set_def)
  from len cut scenario_insert [of h] zero show ?thesis by (intro conjI)
qed

theorem insert_keeps_limit_witness:
  "length (apply_changes quiet_host scenario_cfg
      (take (Suc 1)
        [\<lparr> eventType = ''INSERT'',
           new = Some [(''id'', JStr ''b''), (''created_at'', JStr ''2025-01-02'')],
           old = None \<rparr>,
         \<lparr> eventType = ''INSERT'',
           new = Some [(''id'', JStr ''c''), (''created_at'', JStr ''2025-01-03'')],
           old = None \<rparr>])
      [[(''id'', JStr ''a''), (''created_at'', JStr ''2025-01-01'')]]) \<le> nat 1"
proof -
  let ?ps = "[\<lparr> eventType = ''INSERT'',
           new = Some [(''id'', JStr ''b''), (''created_at'', JStr ''2025-01-02'')],
           old = None \<rparr>,
         \<lparr> eventType = ''INSERT'',
           new = Some [(''id'', JStr ''c''), (''created_at'', JStr ''2025-01-03'')],
           old = None \<rparr>]"
  have l: "stableLimit scenario_cfg = Some 1" by (simp add: scenario_cfg_def)
  have pos: "(0::int) < 1" by simp
  have ins: "list_all (\<lambda>p. eventType p = ''INSERT'' \<and> new p \<noteq> None) ?ps" by simp
  have n: "1 < length ?ps" by simp
  show ?thesis
    by (rule insert_keeps_limit [OF l pos ins n, THEN conjunct1])
qed

text \<open>
  With the limit \<open>0\<close> the same INSERT leaves both rows: two rows under a limit of \<open>0\<close>.
\<close>

theorem limit_zero_counterexample:
  "stableLimit (scenario_cfg\<lparr> stableLimit := Some 0 \<rparr>) = Some 0
   \<and> \<not> length (apply_change quiet_host
      (scenario_cfg\<lparr> stableLimit := Some 0 \<rparr>)
      \<lparr> eventType = ''INSERT'',
        new = Some [(''id'', JStr ''b''), (''created_at'', JStr ''2025-01-02'')],
        old = None \<rparr>
      [[(''id'', JStr ''a''), (''created_at'', JStr ''2025-01-01'')]]) \<le> nat 0"
  by (simp add: apply_change_def length_resort merge_event_def limit_set_def
      transformedNew_def transformData_def actualTable_alerts scenario_cfg_def)

lemma merge_event_update_map:
  assumes "eventType p = ''UPDATE''" "transformedNew cfg p = Some tn"
  shows "merge_event cfg p prev =
         map (\<lambda>record. if strict_eq (get_prop record ''id'') (get_prop tn ''id'')
                        then tn else record) prev"
  using assms by (simp add: merge_event_def Let_def)

lemma map_no_match:
  "list_all (\<lambda>record. \<not> P record) prev \<Longrightarrow> map (\<lambda>record. if P record then tn else record) prev = prev"
  by (induction prev) simp_all

text \<open>
  C9, as the code has it. An UPDATE replaces every row whose \<open>id\<close> is that of the new row
  by the new row and leaves the other rows as they are; the re-sort that follows
  rearranges the same rows and adds none. When no \<open>id\<close> matches, the rows are the ones
  held before: in the same sequence when no order is asked for, or when they already
  stand in the comparator's order, and re-sorted otherwise.
\<close>

theorem update_replaces_matches:
  assumes "eventType p = ''UPDATE''" and "transformedNew cfg p = Some tn"
  shows "merge_event cfg p prev =
           map (\<lambda>record. if strict_eq (get_prop record ''id'') (get_prop tn ''id'')
                          then tn else record) prev
       \<and> apply_change h cfg p prev = resort h cfg (merge_event cfg p prev)
       \<and> mset (apply_change h cfg p prev) = mset (merge_event cfg p prev)
       \<and> (list_all (\<lambda>record. \<not> strict_eq (get_prop record ''id'') (get_prop tn ''id'')) prev
            \<longrightarrow> merge_event cfg p prev = prev
              \<and> mset (apply_change h cfg p prev) = mset prev
              \<and> (order_column cfg = None \<longrightarrow> apply_change h cfg p prev = prev)
              \<and> (\<forall>ob. order_column cfg = Some ob \<and> in_order (compare_rows h ob) prev
                     \<longrightarrow> apply_change h cfg p prev = prev))"
proof -
  let ?f = "\<lambda>record. if strict_eq (get_prop record ''id'') (get_prop tn ''id'')
                        then tn else record"
  have m: "merge_event cfg p prev = map ?f prev"
    by (rule merge_event_update_map [OF assms])
  have a: "apply_change h cfg p prev = resort h cfg (merge_event cfg p prev)"
    by (simp add: apply_change_def)
  have ms: "mset (apply_change h cfg p prev) = mset (merge_event cfg p prev)"
    by (simp add: apply_change_def mset_resort)
  let ?nomatch = "list_all (\<lambda>record. \<not> strict_eq (get_prop record ''id'') (get_prop tn ''id'')) prev"
  have n: "merge_event cfg p prev = prev" if ?nomatch
    using that m by (simp add: map_no_match)
  have nm: "?nomatch
            \<longrightarrow> merge_event cfg p prev = prev
              \<and> mset (apply_change h cfg p prev) = mset prev
              \<and> (order_column cfg = None \<longrightarrow> apply_change h cfg p prev = prev)
              \<and> (\<forall>ob. order_column cfg = Some ob \<and> in_order (compare_rows h ob) prev
                     \<longrightarrow> apply_change h cfg p prev = prev)"
  proof (intro impI conjI allI)
    assume h: ?nomatch
    show "merge_event cfg p prev = prev" by (rule n [OF h])
  next
    assume h: ?nomatch
    show "mset (apply_change h cfg p prev) = mset prev"
      by (simp only: ms n [OF h])
  next
    assume h: ?nomatch and "order_column cfg = None"
    then show "apply_change h cfg p prev = prev"
      by (simp add: apply_change_def n [OF h] resort_def)
  next
    fix ob
    assume h: ?nomatch and "order_column cfg = Some ob \<and> in_order (compare_rows h ob) prev"
    then show "apply_change h cfg p prev = prev"
      by (simp add: apply_change_def n [OF h] resort_def array_sort_in_order)
  qed
  from m a ms nm show ?thesis by (intro conjI)
qed


text \<open>
  Two rows held \<open>apple\<close> before \<open>Banana\<close>, as a server that ignores case orders them, under
  an ascending order by \<open>title\<close>, and an UPDATE for an \<open>id\<close> neither of them has. The
  comparator goes by code unit and puts \<open>Banana\<close> first: the rows come back in the other
  order.
\<close>

theorem update_reorders_counterexample:
  "list_all (\<lambda>record. \<not> strict_eq (get_prop record ''id'') (JNum 3))
      [[(''id'', JNum 1), (''title'', JStr ''apple'')],
       [(''id'', JNum 2), (''title'', JStr ''Banana'')]]
   \<and> apply_change quiet_host
      (history_cfg\<lparr> parsedOrderBy := Some \<lparr> column = ''title'', ascending = Some True \<rparr> \<rparr>)
      \<lparr> eventType = ''UPDATE'',
        new = Some [(''id'', JNum 3), (''title'', JStr ''cherry'')],
        old = None \<rparr>
      [[(''id'', JNum 1), (''title'', JStr ''apple'')],
       [(''id'', JNum 2), (''title'', JStr ''Banana'')]]
    = [[(''id'', JNum 2), (''title'', JStr ''Banana'')],
       [(''id'', JNum 1), (''title'', JStr ''apple'')]]"
  by (simp add: apply_change_def merge_event_def resort_def order_column_def
      transformedNew_def transformData_def actualTable_alerts history_cfg_def
      compare_rows_def compare_values_def js_lt_def get_prop_def)

theorem update_replaces_matches_witness:
  "apply_change quiet_host (history_cfg\<lparr> parsedOrderBy := None \<rparr>)
      \<lparr> eventType = ''UPDATE'',
        new = Some [(''id'', JNum 3), (''created_at'', JStr ''2025-01-03'')],
        old = None \<rparr>
      [[(''id'', JNum 1), (''created_at'', JStr ''2025-01-01'')],
       [(''id'', JNum 2), (''created_at'', JStr ''2025-01-02'')]]
    = [[(''id'', JNum 1), (''created_at'', JStr ''2025-01-01'')],
       [(''id'', JNum 2), (''created_at'', JStr ''2025-01-02'')]]"
proof -
  let ?cfg = "history_cfg\<lparr> parsedOrderBy := None \<rparr>"
  let ?tn = "[(''id'', JNum 3), (''created_at'', JStr ''2025-01-03'')]"
  let ?p = "\<lparr> eventType = ''UPDATE'', new = Some ?tn, old = None \<rparr>"
  let ?prev = "[[(''id'', JNum 1), (''created_at'', JStr ''2025-01-01'')],
                [(''id'', JNum 2), (''created_at'', JStr ''2025-01-02'')]]"
  have e: "eventType ?p = ''UPDATE''" by simp
  have t: "transformedNew ?cfg ?p = Some ?tn"
    by (simp add: transformedNew_def transformData_def actualTable_alerts history_cfg_def)
  have nm: "list_all (\<lambda>record. \<not> strict_eq (get_prop record ''id'') (get_prop ?tn ''id''))
              ?prev"
    by (simp add: get_prop_def)
  have oc: "order_column ?cfg = None"
    by (simp add: order_column_def history_cfg_def)
  show ?thesis
    by (rule update_replaces_matches [OF e t, of ?prev quiet_host,
          THEN conjunct2, THEN conjunct2, THEN conjunct2, THEN mp, OF nm,
          THEN conjunct2, THEN conjunct2, THEN conjunct1, THEN mp, OF oc])
qed

section \<open>The filter of the channel\<close>

text \<open>
  C8. An empty filter gives the channel no filter. Otherwise the channel's filter is the
  equality \<open>key=eq.value\<close> of the first entry, whatever entries follow it, and this is
  the filter of the channel that \<open>setup\<close> opens. The snapshot query takes an equality
  for every entry. With \<open>{location_id: "L1", is_forecast: false}\<close> the channel filters on
  \<open>location_id\<close> alone.
\<close>

theorem channel_filter_first_pair:
  "filterString h (cfg\<lparr> parsedFilter := [] \<rparr>) = None
   \<and> filterString h (cfg\<lparr> parsedFilter := (k, v) # others \<rparr>) = Some (k @ ''=eq.'' @ to_string h v)
   \<and> filterString h (cfg\<lparr> parsedFilter := (k, v) # others \<rparr>)
       = filterString h (cfg\<lparr> parsedFilter := [(k, v)] \<rparr>)
   \<and> ch_filter (last (channels (open_channel h cfg s))) = filterString h cfg
   \<and> q_eq (snapshot_query cfg) = parsedFilter cfg
   \<and> filterString h (cfg\<lparr> parsedFilter :=
          [(''location_id'', JStr ''L1''), (''is_forecast'', JBool False)] \<rparr>)
       = Some ''location_id=eq.L1''"
  by (simp add: filterString_def get_prop_def open_channel_def snapshot_query_def)


section \<open>Decoding the recommendations\<close>


lemma pick_first_truthy:
  "pick_recommendations response =
     (case find truthy (candidates response) of None \<Rightarrow> JArr [] | Some c \<Rightarrow> c)"
  by (simp add: pick_recommendations_def candidates_def js_or_def)

lemma is_array_ensure: "is_array (ensure_array v)"
  by (cases v) simp_all

lemma ensure_array_cases:
  "ensure_array v = (case v of JArr xs \<Rightarrow> JArr xs | JObj ps \<Rightarrow> JArr [JObj ps] | _ \<Rightarrow> JArr [])"
  by (cases v) simp_all

text \<open>
  C4, as the code has it. The decoding takes the first truthy value among
  \<open>data.data.data\<close>, \<open>data.data\<close>, \<open>data.recommendations\<close> and \<open>data\<close>, in that order,
  and the empty array when none is truthy. An array is returned as it is, an object
  that is no array is returned as the one element of an array, anything else gives the
  empty array: what is returned is always an array. A body \<open>{data: [r]}\<close> decodes to
  \<open>[r]\<close>.
\<close>

theorem decode_first_truthy:
  "pick_recommendations response =
     (case find truthy (candidates response) of None \<Rightarrow> JArr [] | Some c \<Rightarrow> c)
   \<and> fastapi_recommendations response =
     (case pick_recommendations response of
        JArr xs \<Rightarrow> JArr xs | JObj ps \<Rightarrow> JArr [JObj ps] | _ \<Rightarrow> JArr [])
   \<and> is_array (fastapi_recommendations response)
   \<and> fastapi_recommendations
        (JObj [(''data'', JObj [(''data'', JArr [JObj [(''id'', JNum 1)]])])])
      = JArr [JObj [(''id'', JNum 1)]]"
proof (intro conjI)
  show "pick_recommendations response =
     (case find truthy (candidates response) of None \<Rightarrow> JArr [] | Some c \<Rightarrow> c)"
    by (rule pick_first_truthy)
  show "fastapi_recommendations response =
     (case pick_recommendations response of
        JArr xs \<Rightarrow> JArr xs | JObj ps \<Rightarrow> JArr [JObj ps] | _ \<Rightarrow> JArr [])"
    unfolding fastapi_recommendations_def by (rule ensure_array_cases)
  show "is_array (fastapi_recommendations response)"
    unfolding fastapi_recommendations_def by (rule is_array_ensure)
  show "fastapi_recommendations
        (JObj [(''data'', JObj [(''data'', JArr [JObj [(''id'', JNum 1)]])])])
      = JArr [JObj [(''id'', JNum 1)]]"
    by (simp add: fastapi_recommendations_def pick_recommendations_def js_or_def get_prop_def)
qed

text \<open>
  A body \<open>{data: {status: "ok"}, recommendations: [r]}\<close>: the second candidate is an
  object, the third is the array \<open>[r]\<close>, and the decoding returns the object wrapped in
  an array, not \<open>[r]\<close>.
\<close>

theorem decode_object_before_array_counterexample:
  "candidates
      (JObj [(''data'', JObj [(''data'', JObj [(''status'', JStr ''ok'')]),
                             (''recommendations'', JArr [JObj [(''id'', JNum 1)]])])])
    = [JUndefined,
       JObj [(''status'', JStr ''ok'')],
       JArr [JObj [(''id'', JNum 1)]],
       JObj [(''data'', JObj [(''status'', JStr ''ok'')]),
             (''recommendations'', JArr [JObj [(''id'', JNum 1)]])]]
   \<and> fastapi_recommendations
      (JObj [(''data'', JObj [(''data'', JObj [(''status'', JStr ''ok'')]),
                             (''recommendations'', JArr [JObj [(''id'', JNum 1)]])])])
    = JArr [JObj [(''status'', JStr ''ok'')]]"
  by (simp add: candidates_def fastapi_recommendations_def pick_recommendations_def
      js_or_def get_prop_def)

section \<open>The life of a subscription\<close>

text \<open>
  C1 on the code. The effect runs and is cleaned up while the snapshot query is still
  out; the cleanup finds no channel and no timer and changes nothing. When the
  snapshot then arrives, \<open>setup\<close> goes on as if nothing had happened: it stores the rows,
  sets \<open>loading\<close> to false and opens a channel, which stays open.
\<close>

theorem stale_snapshot_after_cleanup:
  "run quiet_host scenario_cfg [Cleanup] = activate
   \<and> run quiet_host scenario_cfg
      [Cleanup,
       SnapshotResolved
         (FetchData (Some [[(''id'', JStr ''a''), (''created_at'', JStr ''2025-01-01'')]]))]
    = \<lparr> data = [[(''id'', JStr ''a''), (''created_at'', JStr ''2025-01-01'')]],
        loading = False, connected = False, channelRef = Some 1, retryTimeout = None,
        channels = [\<lparr> ch_id = 1, ch_event = ''*'', ch_schema = ''public'',
                      ch_table = ''alerts'', ch_filter = Some ''location_id=eq.L1'' \<rparr>],
        timers = [], awaiting_snapshot = 0, awaiting_removal = 0, next_id = 2 \<rparr>"
  by (simp add: run_def step_def cleanup_def activate_def setup_call_def fresh_hook_def
      snapshot_resolved_def open_channel_def filterString_def scenario_cfg_def get_prop_def
      actualTable_def TABLE_MAPPING_def)



lemma timer_guard_activate: "timer_guard activate"
  by (simp add: timer_guard_def activate_def setup_call_def fresh_hook_def)

lemma timer_guard_on_status: "timer_guard s \<Longrightarrow> timer_guard (on_status st s)"
  by (cases st; cases "retryTimeout s")
     (simp_all add: timer_guard_def on_status_def schedule_retry_def clearTimeout_def)

lemma timer_guard_cleanup: "timer_guard s \<Longrightarrow> timer_guard (cleanup s)"
  by (cases "channelRef s"; cases "retryTimeout s")
     (simp_all add: timer_guard_def cleanup_def clearTimeout_def removeChannel_def)

lemma timer_guard_snapshot:
  "timer_guard s \<Longrightarrow> timer_guard (snapshot_resolved h cfg res (s\<lparr> awaiting_snapshot := k \<rparr>))"
  by (cases res; cases "channelRef s")
     (simp_all add: timer_guard_def snapshot_resolved_def setup_failed_def removeChannel_def
        open_channel_def)

lemma timer_guard_fired:
  "timer_guard s \<Longrightarrow> t \<in> set (timers s)
   \<Longrightarrow> timer_guard (setup_call ((clearTimeout t s)\<lparr> retryTimeout := None \<rparr>))"
  by (cases "retryTimeout s") (simp_all add: timer_guard_def setup_call_def clearTimeout_def)

lemma timer_guard_step: "timer_guard s \<Longrightarrow> timer_guard (step h cfg s e)"
proof (cases e)
  case Activate
  assume "timer_guard s"
  then show ?thesis using Activate by (simp add: step_def timer_guard_def setup_call_def)
next
  case (SnapshotResolved res)
  assume "timer_guard s"
  then show ?thesis using SnapshotResolved
    by (simp add: step_def timer_guard_snapshot)
next
  case (RemoveChannelResolved ok)
  assume "timer_guard s"
  then show ?thesis using RemoveChannelResolved
    by (simp add: step_def timer_guard_def open_channel_def setup_failed_def Let_def)
next
  case (Status st)
  assume "timer_guard s"
  then show ?thesis using Status by (simp add: step_def timer_guard_on_status)
next
  case (TimerFired t)
  assume "timer_guard s"
  then show ?thesis using TimerFired by (simp add: step_def timer_guard_fired)
next
  case (Change p)
  assume "timer_guard s"
  then show ?thesis using Change by (simp add: step_def timer_guard_def)
next
  case Cleanup
  assume "timer_guard s"
  then show ?thesis using Cleanup by (simp add: step_def timer_guard_cleanup)
qed

lemma timer_guard_foldl: "timer_guard s \<Longrightarrow> timer_guard (foldl (step h cfg) s evs)"
  by (induction evs arbitrary: s) (simp_all add: timer_guard_step)

lemma timer_guard_run: "timer_guard (run h cfg evs)"
  unfolding run_def by (rule timer_guard_foldl [OF timer_guard_activate])

lemma timer_guard_length: "timer_guard s \<Longrightarrow> length (timers s) \<le> 1"
  by (cases "retryTimeout s") (simp_all add: timer_guard_def)

lemma closed_while_pending:
  "retryTimeout s \<noteq> None \<Longrightarrow> st = CLOSED \<or> st = CHANNEL_ERROR
   \<Longrightarrow> timers (step h cfg s (Status st)) = timers s
     \<and> retryTimeout (step h cfg s (Status st)) = retryTimeout s
     \<and> connected (step h cfg s (Status st)) = False"
  by (cases "retryTimeout s") (auto simp: step_def on_status_def schedule_retry_def)

lemma subscribed_clears:
  "timer_guard s \<Longrightarrow> timers (step h cfg s (Status SUBSCRIBED)) = []
     \<and> retryTimeout (step h cfg s (Status SUBSCRIBED)) = None
     \<and> connected (step h cfg s (Status SUBSCRIBED)) = True"
  by (cases "retryTimeout s") (simp_all add: step_def on_status_def timer_guard_def clearTimeout_def)

lemma timed_out_no_timer:
  "timers (step h cfg s (Status TIMED_OUT)) = timers s
     \<and> retryTimeout (step h cfg s (Status TIMED_OUT)) = retryTimeout s
     \<and> connected (step h cfg s (Status TIMED_OUT)) = False"
  by (simp add: step_def on_status_def)

text \<open>
  C5. After any sequence of events at most one timer is outstanding. A CLOSED or
  CHANNEL_ERROR status that finds a timer in the ref sets no other. After a SUBSCRIBED
  status no timer is outstanding and the ref is empty. A TIMED_OUT status sets
  \<open>connected\<close> to false and touches neither the timers nor the ref.
\<close>

theorem one_reconnect_timer:
  "length (timers (run h cfg evs)) \<le> 1
   \<and> (retryTimeout s \<noteq> None \<longrightarrow>
        timers (step h cfg s (Status CLOSED)) = timers s
        \<and> timers (step h cfg s (Status CHANNEL_ERROR)) = timers s)
   \<and> timers (step h cfg (run h cfg evs) (Status SUBSCRIBED)) = []
   \<and> retryTimeout (step h cfg (run h cfg evs) (Status SUBSCRIBED)) = None
   \<and> connected (step h cfg s (Status TIMED_OUT)) = False
   \<and> timers (step h cfg s (Status TIMED_OUT)) = timers s
   \<and> retryTimeout (step h cfg s (Status TIMED_OUT)) = retryTimeout s"
  using timer_guard_length [OF timer_guard_run, of h cfg evs]
    closed_while_pending [of s CLOSED h cfg]
    closed_while_pending [of s CHANNEL_ERROR h cfg]
    subscribed_clears [OF timer_guard_run, of h cfg h cfg evs]
    timed_out_no_timer [of h cfg s]
  by simp

theorem one_reconnect_timer_witness:
  "retryTimeout (run quiet_host scenario_cfg
       [SnapshotResolved (FetchData None), Status CLOSED]) = Some 2
   \<and> timers (step quiet_host scenario_cfg
       (run quiet_host scenario_cfg [SnapshotResolved (FetchData None), Status CLOSED])
       (Status CLOSED)) = [2]"
proof -
  let ?s = "run quiet_host scenario_cfg [SnapshotResolved (FetchData None), Status CLOSED]"
  have r: "retryTimeout ?s = Some 2" and t: "timers ?s = [2]"
    by (simp_all add: run_def step_def activate_def setup_call_def fresh_hook_def
      snapshot_resolved_def open_channel_def on_status_def schedule_retry_def)
  then have n: "retryTimeout ?s \<noteq> None" by simp
  have "timers (step quiet_host scenario_cfg ?s (Status CLOSED)) = timers ?s"
    by (rule one_reconnect_timer [of quiet_host scenario_cfg "[]" ?s,
          THEN conjunct2, THEN conjunct1, THEN mp, OF n, THEN conjunct1])
  with r t show ?thesis by simp
qed


section \<open>The comparator and the re-sort\<close>


lemma num_lt_NaN_right: "num_lt x NaN = False"
  by (cases x) simp_all

lemma compare_undefined_left: "compare_values h JUndefined v = 0"
  by (cases v) (simp_all add: compare_values_def js_lt_def num_lt_NaN_right)

lemma compare_undefined_right: "compare_values h v JUndefined = 0"
  by (cases v) (simp_all add: compare_values_def js_lt_def num_lt_NaN_right)

lemma compare_strings:
  "compare_values h (JStr s) (JStr t) = (if str_less t s then 1 else if str_less s t then - 1 else 0)"
  by (simp add: compare_values_def js_lt_def)

lemma compare_numbers:
  "compare_values h (JNum x) (JNum y) = (if y < x then 1 else if x < y then - 1 else 0)"
  by (simp add: compare_values_def js_lt_def)

lemma compare_null:
  "compare_values h JNull JNull = 0"
  "compare_values h JNull (JNum y) = compare_values h (JNum 0) (JNum y)"
  "compare_values h (JNum x) JNull = compare_values h (JNum x) (JNum 0)"
  by (simp_all add: compare_values_def js_lt_def)

lemma js_lt_null:
  "js_lt h JNull v = js_lt h (JNum 0) v" "js_lt h v JNull = js_lt h v (JNum 0)"
  by (cases v; simp add: js_lt_def)+

lemma compare_null_any:
  "compare_values h JNull v = compare_values h (JNum 0) v"
  "compare_values h v JNull = compare_values h v (JNum 0)"
  by (simp_all add: compare_values_def js_lt_null)

lemma compare_rows_values:
  "compare_rows h ob a b =
     (if ascending ob = Some True
      then compare_values h (get_prop a (column ob)) (get_prop b (column ob))
      else - compare_values h (get_prop a (column ob)) (get_prop b (column ob)))"
  by (simp add: compare_rows_def Let_def)

text \<open>
  C3, as the code has it. The comparator is \<open>compare\<close>, negated unless \<open>ascending\<close> is
  true, so \<open>ascending = false\<close> gives the opposite sign of \<open>ascending = true\<close>. \<open>compare\<close>
  is made of the two relational operators and has no case of its own for a missing
  value: two strings compare code unit by code unit and two numbers by value;
  \<open>undefined\<close>, which a row without the column gives, compares equal to every value;
  \<open>null\<close> compares equal to \<open>null\<close> and against any other value as the number \<open>0\<close> does.
\<close>

theorem comparator_by_relational_operators:
  "compare_rows h ob a b =
     (if ascending ob = Some True
      then compare_values h (get_prop a (column ob)) (get_prop b (column ob))
      else - compare_values h (get_prop a (column ob)) (get_prop b (column ob)))
   \<and> compare_rows h (ob\<lparr> ascending := Some False \<rparr>) a b
       = - compare_rows h (ob\<lparr> ascending := Some True \<rparr>) a b
   \<and> compare_values h (JStr s) (JStr t)
       = (if str_less t s then 1 else if str_less s t then - 1 else 0)
   \<and> compare_values h (JNum x) (JNum y) = (if y < x then 1 else if x < y then - 1 else 0)
   \<and> compare_values h JUndefined v = 0
   \<and> compare_values h v JUndefined = 0
   \<and> compare_values h JNull JNull = 0
   \<and> compare_values h JNull (JNum y) = compare_values h (JNum 0) (JNum y)
   \<and> compare_values h (JNum x) JNull = compare_values h (JNum x) (JNum 0)
   \<and> compare_values h JNull v = compare_values h (JNum 0) v
   \<and> compare_values h v JNull = compare_values h v (JNum 0)"
  by (simp only: compare_rows_values compare_strings compare_numbers compare_undefined_left
      compare_undefined_right compare_null compare_null_any) simp

text \<open>
  Ascending by \<open>score\<close>: a row with no \<open>score\<close> compares equal to a row with \<open>score\<close> 5,
  not below it, and a row with \<open>score\<close> \<open>null\<close> goes after a row with \<open>score\<close> -1.
\<close>

theorem null_not_lowest_counterexample:
  "compare_rows quiet_host \<lparr> column = ''score'', ascending = Some True \<rparr>
      [(''id'', JNum 1)] [(''id'', JNum 2), (''score'', JNum 5)] = 0
   \<and> compare_rows quiet_host \<lparr> column = ''score'', ascending = Some True \<rparr>
      [(''id'', JNum 1), (''score'', JNull)] [(''id'', JNum 2), (''score'', JNum (- 1))] = 1"
  by (simp add: compare_rows_def compare_values_def js_lt_def get_prop_def)



lemma str_less_lex: "str_less s t \<longleftrightarrow> (map of_char s :: nat list) < map of_char t"
  by (induction s t rule: str_less.induct) auto

lemma str_less_asym: "str_less s t \<Longrightarrow> \<not> str_less t s"
  by (simp add: str_less_lex)

lemma str_less_trans: "str_less s t \<Longrightarrow> str_less t u \<Longrightarrow> str_less s u"
  unfolding str_less_lex by (rule less_trans)

lemma str_less_neg_trans: "\<not> str_less s t \<Longrightarrow> \<not> str_less t u \<Longrightarrow> \<not> str_less s u"
  unfolding str_less_lex not_less by (rule order_trans)

lemma set_insert_by: "set (insert_by cmp x ys) = insert x (set ys)"
  by (induction ys) auto

lemma set_array_sort: "set (array_sort cmp xs) = set xs"
  by (induction xs) (simp_all add: set_insert_by)

lemma sorted_insert_by:
  assumes pos: "\<And>y. y \<in> set ys \<Longrightarrow> (0 < cmp x y) = lt (f x) (f y)"
    and asym: "\<And>a b. lt a b \<Longrightarrow> \<not> lt b a"
    and ntr: "\<And>a b c. \<not> lt a b \<Longrightarrow> \<not> lt b c \<Longrightarrow> \<not> lt a c"
    and srt: "sorted_wrt (\<lambda>a b. \<not> lt (f a) (f b)) ys"
  shows "sorted_wrt (\<lambda>a b. \<not> lt (f a) (f b)) (insert_by cmp x ys)"
  using pos srt
proof (induction ys)
  case Nil
  then show ?case by simp
next
  case (Cons y ys)
  have py: "(0 < cmp x y) = lt (f x) (f y)" using Cons.prems(1) by simp
  have srt': "sorted_wrt (\<lambda>a b. \<not> lt (f a) (f b)) ys"
    and hd: "\<And>z. z \<in> set ys \<Longrightarrow> \<not> lt (f y) (f z)"
    using Cons.prems(2) by simp_all
  show ?case
  proof (cases "lt (f x) (f y)")
    case True
    have ih: "sorted_wrt (\<lambda>a b. \<not> lt (f a) (f b)) (insert_by cmp x ys)"
      using Cons.IH Cons.prems(1) srt' by simp
    have "\<not> lt (f y) (f x)" using True by (rule asym)
    with ih hd True py show ?thesis by (simp add: set_insert_by)
  next
    case False
    have "\<not> lt (f x) (f z)" if "z \<in> set ys" for z
      by (rule ntr [OF False hd [OF that]])
    with False py Cons.prems(2) show ?thesis by simp
  qed
qed

lemma sorted_array_sort:
  assumes pos: "\<And>x y. x \<in> set xs \<Longrightarrow> y \<in> set xs \<Longrightarrow> (0 < cmp x y) = lt (f x) (f y)"
    and asym: "\<And>a b. lt a b \<Longrightarrow> \<not> lt b a"
    and ntr: "\<And>a b c. \<not> lt a b \<Longrightarrow> \<not> lt b c \<Longrightarrow> \<not> lt a c"
  shows "sorted_wrt (\<lambda>a b. \<not> lt (f a) (f b)) (array_sort cmp xs)"
  using pos
proof (induction xs)
  case Nil
  then show ?case by simp
next
  case (Cons x xs)
  have srt: "sorted_wrt (\<lambda>a b. \<not> lt (f a) (f b)) (array_sort cmp xs)"
    using Cons by simp
  have pos': "(0 < cmp x y) = lt (f x) (f y)" if "y \<in> set (array_sort cmp xs)" for y
    using that Cons.prems by (simp add: set_array_sort)
  show ?case
    unfolding array_sort.simps
    by (rule sorted_insert_by [of "array_sort cmp xs" cmp x lt f, OF pos' asym ntr srt])
qed

lemma compare_rows_desc_strings:
  assumes "ascending ob \<noteq> Some True"
    and "is_string (get_prop a (column ob))" "is_string (get_prop b (column ob))"
  shows "(0 < compare_rows h ob a b)
         = js_lt h (get_prop a (column ob)) (get_prop b (column ob))"
proof -
  obtain s t where st: "get_prop a (column ob) = JStr s" "get_prop b (column ob) = JStr t"
    using assms(2,3) by (cases "get_prop a (column ob)"; cases "get_prop b (column ob)") simp_all
  show ?thesis
    using assms(1) str_less_asym [of s t] str_less_asym [of t s]
    by (auto simp: compare_rows_values st compare_strings js_lt_def)
qed

lemma list_all_replace:
  "P tn \<Longrightarrow> list_all P xs \<Longrightarrow> list_all P (map (\<lambda>r. if Q r then tn else r) xs)"
  by (induction xs) simp_all

lemma list_all_slice0: "list_all P xs \<Longrightarrow> list_all P (slice0 n xs)"
  by (auto simp: slice0_def list_all_iff dest: in_set_takeD)

lemma merge_event_rows:
  assumes "list_all P prev"
    and "case transformedNew cfg p of None \<Rightarrow> True | Some tn \<Rightarrow> P tn"
  shows "list_all P (merge_event cfg p prev)"
proof (cases "transformedNew cfg p")
  case None
  with assms(1) show ?thesis
    by (simp add: merge_event_def Let_def list_all_iff)
next
  case (Some tn)
  with assms(2) have tn: "P tn" by simp
  have ins: "list_all P (tn # prev)" using tn assms(1) by simp
  have upd: "list_all P (map (\<lambda>record.
                  if strict_eq (get_prop record ''id'') (get_prop tn ''id'')
                  then tn else record) prev)"
    by (rule list_all_replace [OF tn assms(1)])
  have del: "list_all P (filter Q prev)" for Q
    using assms(1) by (simp add: list_all_iff)
  show ?thesis
    using Some ins upd del list_all_slice0 [OF ins] assms(1)
    by (simp add: merge_event_def Let_def cong: if_cong)
qed

lemma js_lt_string_key:
  assumes "is_string u" "is_string v"
  shows "js_lt h u v
         = str_less (case u of JStr s \<Rightarrow> s | _ \<Rightarrow> []) (case v of JStr s \<Rightarrow> s | _ \<Rightarrow> [])"
  using assms by (cases u; cases v) (simp_all add: js_lt_def)

lemma resort_descending_strings:
  assumes oc: "order_column cfg = Some ob" and asc: "ascending ob \<noteq> Some True"
    and rows: "list_all (\<lambda>r. is_string (get_prop r (column ob))) rows"
  shows "sorted_wrt (\<lambda>a b. \<not> js_lt h (get_prop a (column ob)) (get_prop b (column ob)))
           (resort h cfg rows)"
proof -
  let ?f = "\<lambda>r. case get_prop r (column ob) of JStr s \<Rightarrow> s | _ \<Rightarrow> []"
  let ?cmp = "compare_rows h ob"
  have str: "is_string (get_prop r (column ob))" if "r \<in> set rows" for r
    using rows that by (simp add: list_all_iff)
  have key: "js_lt h (get_prop x (column ob)) (get_prop y (column ob)) = str_less (?f x) (?f y)"
    if "x \<in> set rows" "y \<in> set rows" for x y
    by (rule js_lt_string_key [OF str [OF that(1)] str [OF that(2)]])
  have pos: "(0 < ?cmp x y) = str_less (?f x) (?f y)"
    if "x \<in> set rows" "y \<in> set rows" for x y
    using compare_rows_desc_strings [OF asc str [OF that(1)] str [OF that(2)], of h]
      key [OF that] by simp
  have "sorted_wrt (\<lambda>a b. \<not> str_less (?f a) (?f b)) (array_sort ?cmp rows)"
    by (rule sorted_array_sort [of rows ?cmp str_less ?f, OF pos str_less_asym
          str_less_neg_trans])
  then have "sorted_wrt (\<lambda>a b. \<not> js_lt h (get_prop a (column ob)) (get_prop b (column ob)))
           (array_sort ?cmp rows)"
  proof (rule sorted_wrt_mono_rel [rotated])
    fix x y
    assume "x \<in> set (array_sort ?cmp rows)" "y \<in> set (array_sort ?cmp rows)"
      and n: "\<not> str_less (?f x) (?f y)"
    then have "x \<in> set rows" "y \<in> set rows" by (simp_all add: set_array_sort)
    from key [OF this] n
    show "\<not> js_lt h (get_prop x (column ob)) (get_prop y (column ob))" by simp
  qed
  then show ?thesis using oc by (simp add: resort_def)
qed

lemma apply_change_descending:
  assumes oc: "order_column cfg = Some ob" and asc: "ascending ob \<noteq> Some True"
    and prev: "list_all (\<lambda>r. is_string (get_prop r (column ob))) prev"
    and new: "case transformedNew cfg p of None \<Rightarrow> True
              | Some tn \<Rightarrow> is_string (get_prop tn (column ob))"
  shows "sorted_wrt (\<lambda>a b. \<not> js_lt h (get_prop a (column ob)) (get_prop b (column ob)))
           (apply_change h cfg p prev)"
  unfolding apply_change_def
  by (rule resort_descending_strings [OF oc asc merge_event_rows [OF prev new]])

lemma three_inserts:
  assumes ob: "parsedOrderBy cfg = Some \<lparr> column = ''created_at'', ascending = Some False \<rparr>"
    and lim: "\<not> limit_set cfg \<or> 3 \<le> the (stableLimit cfg)"
    and ev: "eventType p1 = ''INSERT''" "eventType p2 = ''INSERT''" "eventType p3 = ''INSERT''"
    and tn: "transformedNew cfg p1 = Some r1" "transformedNew cfg p2 = Some r2"
            "transformedNew cfg p3 = Some r3"
    and ts: "get_prop r1 ''created_at'' = JStr t1" "get_prop r2 ''created_at'' = JStr t2"
            "get_prop r3 ''created_at'' = JStr t3"
    and lt: "str_less t1 t2" "str_less t2 t3"
    and ps: "ps \<in> set [[p1, p2, p3], [p1, p3, p2], [p2, p1, p3],
                        [p2, p3, p1], [p3, p1, p2], [p3, p2, p1]]"
  shows "apply_changes h cfg ps [] = [r3, r2, r1]"
proof -
  have lt13: "str_less t1 t3" using lt by (rule str_less_trans)
  have n: "\<not> str_less t2 t1" "\<not> str_less t3 t2" "\<not> str_less t3 t1"
    using lt lt13 by (simp_all add: str_less_asym)
  have oc: "order_column cfg = Some \<lparr> column = ''created_at'', ascending = Some False \<rparr>"
    using ob by (simp add: order_column_def)
  have cut: "(if limit_set cfg then slice0 (the (stableLimit cfg)) rows else rows) = rows"
    if "length rows \<le> 3" for rows :: "row list"
    using lim that by (auto simp: slice0_def)
  have step: "apply_change h cfg p rows
              = array_sort (compare_rows h \<lparr> column = ''created_at'', ascending = Some False \<rparr>)
                  (r # rows)"
    if "eventType p = ''INSERT''" "transformedNew cfg p = Some r" "length rows \<le> 2" for p r rows
  proof -
    have "length (r # rows) \<le> 3" using that(3) by simp
    from cut [OF this] that(1,2) oc show ?thesis
      by (simp add: apply_change_def merge_event_def resort_def)
  qed
  have c: "compare_rows h \<lparr> column = ''created_at'', ascending = Some False \<rparr> a b
           = (if str_less s t then 1 else if str_less t s then - 1 else 0)"
    if "get_prop a ''created_at'' = JStr s" "get_prop b ''created_at'' = JStr t" for a b s t
    using that str_less_asym [of s t] by (auto simp: compare_rows_values compare_strings)
  note cs = c [OF ts(1) ts(2)] c [OF ts(1) ts(3)] c [OF ts(2) ts(1)] c [OF ts(2) ts(3)]
    c [OF ts(3) ts(1)] c [OF ts(3) ts(2)]
  note st = step [OF ev(1) tn(1)] step [OF ev(2) tn(2)] step [OF ev(3) tn(3)]
  from ps consider "ps = [p1, p2, p3]" | "ps = [p1, p3, p2]" | "ps = [p2, p1, p3]"
    | "ps = [p2, p3, p1]" | "ps = [p3, p1, p2]" | "ps = [p3, p2, p1]"
    by auto
  then show ?thesis
  proof cases
    case 1 then show ?thesis by (simp add: apply_changes_def st cs lt lt13 n)
  next
    case 2 then show ?thesis by (simp add: apply_changes_def st cs lt lt13 n)
  next
    case 3 then show ?thesis by (simp add: apply_changes_def st cs lt lt13 n)
  next
    case 4 then show ?thesis by (simp add: apply_changes_def st cs lt lt13 n)
  next
    case 5 then show ?thesis by (simp add: apply_changes_def st cs lt lt13 n)
  next
    case 6 then show ?thesis by (simp add: apply_changes_def st cs lt lt13 n)
  qed
qed

text \<open>
  C6, as the code has it. The subscription orders by \<open>created_at\<close>, descending. When the
  rows held and the new row all carry a string in \<open>created_at\<close>, the rows after the event
  stand newest first: no row is followed by one with a greater \<open>created_at\<close>. Three rows
  with strings \<open>T1 < T2 < T3\<close> in \<open>created_at\<close>, inserted into the empty RecordSet in any
  order under no limit or a limit of at least three, end up as \<open>[T3, T2, T1]\<close>.
\<close>

theorem resort_newest_first:
  assumes ob: "parsedOrderBy cfg = Some \<lparr> column = ''created_at'', ascending = Some False \<rparr>"
  shows "(list_all (\<lambda>r. is_string (get_prop r ''created_at'')) prev
          \<and> (case transformedNew cfg p of None \<Rightarrow> True
              | Some tn \<Rightarrow> is_string (get_prop tn ''created_at''))
          \<longrightarrow> sorted_wrt (\<lambda>a b. \<not> js_lt h (get_prop a ''created_at'') (get_prop b ''created_at''))
                (apply_change h cfg p prev))
       \<and> ((\<not> limit_set cfg \<or> 3 \<le> the (stableLimit cfg))
          \<and> eventType p1 = ''INSERT'' \<and> eventType p2 = ''INSERT'' \<and> eventType p3 = ''INSERT''
          \<and> transformedNew cfg p1 = Some r1 \<and> transformedNew cfg p2 = Some r2
          \<and> transformedNew cfg p3 = Some r3
          \<and> get_prop r1 ''created_at'' = JStr t1 \<and> get_prop r2 ''created_at'' = JStr t2
          \<and> get_prop r3 ''created_at'' = JStr t3
          \<and> str_less t1 t2 \<and> str_less t2 t3
          \<and> ps \<in> set [[p1, p2, p3], [p1, p3, p2], [p2, p1, p3],
                          [p2, p3, p1], [p3, p1, p2], [p3, p2, p1]]
          \<longrightarrow> apply_changes h cfg ps [] = [r3, r2, r1])"
proof (intro conjI impI)
  let ?ob = "\<lparr> column = ''created_at'', ascending = Some False \<rparr>"
  have oc: "order_column cfg = Some ?ob" using ob by (simp add: order_column_def)
  have asc: "ascending ?ob \<noteq> Some True" by simp
  assume a: "list_all (\<lambda>r. is_string (get_prop r ''created_at'')) prev
          \<and> (case transformedNew cfg p of None \<Rightarrow> True
              | Some tn \<Rightarrow> is_string (get_prop tn ''created_at''))"
  have prev: "list_all (\<lambda>r. is_string (get_prop r (column ?ob))) prev"
    using a by simp
  have new: "case transformedNew cfg p of None \<Rightarrow> True
              | Some tn \<Rightarrow> is_string (get_prop tn (column ?ob))"
    using a by (cases "transformedNew cfg p") simp_all
  from apply_change_descending [OF oc asc prev new, of h]
  show "sorted_wrt (\<lambda>a b. \<not> js_lt h (get_prop a ''created_at'') (get_prop b ''created_at''))
                (apply_change h cfg p prev)"
    by simp
next
  assume a: "(\<not> limit_set cfg \<or> 3 \<le> the (stableLimit cfg))
          \<and> eventType p1 = ''INSERT'' \<and> eventType p2 = ''INSERT'' \<and> eventType p3 = ''INSERT''
          \<and> transformedNew cfg p1 = Some r1 \<and> transformedNew cfg p2 = Some r2
          \<and> transformedNew cfg p3 = Some r3
          \<and> get_prop r1 ''created_at'' = JStr t1 \<and> get_prop r2 ''created_at'' = JStr t2
          \<and> get_prop r3 ''created_at'' = JStr t3
          \<and> str_less t1 t2 \<and> str_less t2 t3
          \<and> ps \<in> set [[p1, p2, p3], [p1, p3, p2], [p2, p1, p3],
                          [p2, p3, p1], [p3, p1, p2], [p3, p2, p1]]"
  show "apply_changes h cfg ps [] = [r3, r2, r1]"
    by (rule three_inserts [OF ob, of p1 p2 p3 r1 r2 r3 t1 t2 t3 ps h]) (use a in blast)+
qed

theorem resort_newest_first_witness:
  "apply_changes quiet_host history_cfg
      [\<lparr> eventType = ''INSERT'',
         new = Some [(''id'', JStr ''b''), (''created_at'', JStr ''2025-01-02'')], old = None \<rparr>,
       \<lparr> eventType = ''INSERT'',
         new = Some [(''id'', JStr ''c''), (''created_at'', JStr ''2025-01-03'')], old = None \<rparr>,
       \<lparr> eventType = ''INSERT'',
         new = Some [(''id'', JStr ''a''), (''created_at'', JStr ''2025-01-01'')], old = None \<rparr>]
      []
    = [[(''id'', JStr ''c''), (''created_at'', JStr ''2025-01-03'')],
       [(''id'', JStr ''b''), (''created_at'', JStr ''2025-01-02'')],
       [(''id'', JStr ''a''), (''created_at'', JStr ''2025-01-01'')]]"
proof -
  let ?ra = "[(''id'', JStr ''a''), (''created_at'', JStr ''2025-01-01'')]"
  let ?rb = "[(''id'', JStr ''b''), (''created_at'', JStr ''2025-01-02'')]"
  let ?rc = "[(''id'', JStr ''c''), (''created_at'', JStr ''2025-01-03'')]"
  let ?pa = "\<lparr> eventType = ''INSERT'', new = Some ?ra, old = None \<rparr>"
  let ?pb = "\<lparr> eventType = ''INSERT'', new = Some ?rb, old = None \<rparr>"
  let ?pc = "\<lparr> eventType = ''INSERT'', new = Some ?rc, old = None \<rparr>"
  have ob: "parsedOrderBy history_cfg
            = Some \<lparr> column = ''created_at'', ascending = Some False \<rparr>"
    by (simp add: history_cfg_def)
  have hyp: "(\<not> limit_set history_cfg \<or> 3 \<le> the (stableLimit history_cfg))
          \<and> eventType ?pa = ''INSERT'' \<and> eventType ?pb = ''INSERT'' \<and> eventType ?pc = ''INSERT''
          \<and> transformedNew history_cfg ?pa = Some ?ra \<and> transformedNew history_cfg ?pb = Some ?rb
          \<and> transformedNew history_cfg ?pc = Some ?rc
          \<and> get_prop ?ra ''created_at'' = JStr ''2025-01-01''
          \<and> get_prop ?rb ''created_at'' = JStr ''2025-01-02''
          \<and> get_prop ?rc ''created_at'' = JStr ''2025-01-03''
          \<and> str_less ''2025-01-01'' ''2025-01-02'' \<and> str_less ''2025-01-02'' ''2025-01-03''
          \<and> [?pb, ?pc, ?pa] \<in> set [[?pa, ?pb, ?pc], [?pa, ?pc, ?pb], [?pb, ?pa, ?pc],
                          [?pb, ?pc, ?pa], [?pc, ?pa, ?pb], [?pc, ?pb, ?pa]]"
    by (simp add: limit_set_def history_cfg_def transformedNew_def transformData_def
        actualTable_alerts get_prop_def)
  show ?thesis
    by (rule resort_newest_first [OF ob, THEN conjunct2, THEN mp, OF hyp])
qed

text \<open>
  Three INSERTs under \<open>history_cfg\<close>, the second with \<open>created_at\<close> \<open>null\<close>: \<open>null\<close> compares
  equal to both dates, nothing moves, and the row of 1 January stays before the row of
  3 January. And under \<open>scenario_cfg\<close>, whose limit is one, three INSERTs of \<open>T3\<close>, \<open>T2\<close>,
  \<open>T1\<close> leave \<open>T1\<close> alone.
\<close>

theorem unsorted_with_null_counterexample:
  "apply_changes quiet_host history_cfg
      [\<lparr> eventType = ''INSERT'',
         new = Some [(''id'', JStr ''c''), (''created_at'', JStr ''2025-01-03'')], old = None \<rparr>,
       \<lparr> eventType = ''INSERT'',
         new = Some [(''id'', JStr ''n''), (''created_at'', JNull)], old = None \<rparr>,
       \<lparr> eventType = ''INSERT'',
         new = Some [(''id'', JStr ''a''), (''created_at'', JStr ''2025-01-01'')], old = None \<rparr>]
      []
    = [[(''id'', JStr ''a''), (''created_at'', JStr ''2025-01-01'')],
       [(''id'', JStr ''n''), (''created_at'', JNull)],
       [(''id'', JStr ''c''), (''created_at'', JStr ''2025-01-03'')]]
   \<and> js_lt quiet_host (JStr ''2025-01-01'') (JStr ''2025-01-03'')
   \<and> apply_changes quiet_host scenario_cfg
      [\<lparr> eventType = ''INSERT'',
         new = Some [(''id'', JStr ''c''), (''created_at'', JStr ''2025-01-03'')], old = None \<rparr>,
       \<lparr> eventType = ''INSERT'',
         new = Some [(''id'', JStr ''b''), (''created_at'', JStr ''2025-01-02'')], old = None \<rparr>,
       \<lparr> eventType = ''INSERT'',
         new = Some [(''id'', JStr ''a''), (''created_at'', JStr ''2025-01-01'')], old = None \<rparr>]
      []
    = [[(''id'', JStr ''a''), (''created_at'', JStr ''2025-01-01'')]]"
  by (simp add: apply_changes_def apply_change_def merge_event_def resort_def order_column_def
      limit_set_def slice0_def transformedNew_def transformData_def actualTable_alerts
      history_cfg_def scenario_cfg_def compare_rows_def compare_values_def js_lt_def
      get_prop_def quiet_host_def)

end
